theory Spec2Isabelle
  imports Main "HOL-Library.Multiset" "HOL-Library.List_Lexorder" "HOL-Library.Char_ord"
begin

section \<open>Strings and character classes\<close>

text \<open>
  The module \<^verbatim>\<open>webstruct/wapiti.py\<close> works on Python text strings (\<^verbatim>\<open>str\<close> of
  Python 3). A string is modelled as a \<^typ>\<open>string\<close>, each \<^typ>\<open>char\<close> standing for one
  code point in the range 0..255. The character classes below are CPython's, cut down to
  that range:
  \<^item> \<open>whitespace\<close>: the characters \<^verbatim>\<open>str.strip()\<close>, \<^verbatim>\<open>str.rsplit()\<close> and the
    pattern escape \<^verbatim>\<open>\s\<close> (under \<^verbatim>\<open>re.UNICODE\<close>) treat as white space;
  \<^item> \<open>linebreaks\<close>: the characters at which \<^verbatim>\<open>str.splitlines()\<close> ends a line;
  \<^item> \<open>decimals\<close>: the characters the pattern escape \<^verbatim>\<open>\d\<close> matches;
  \<^item> \<open>digit_chars\<close>: the characters for which \<^verbatim>\<open>str.isdigit()\<close> holds (the decimals
    and the superscripts two, three and one).
\<close>

definition whitespace :: "char list" where
  "whitespace = [CHR 0x09, CHR 0x0A, CHR 0x0B, CHR 0x0C, CHR 0x0D, CHR 0x1C, CHR 0x1D,
     CHR 0x1E, CHR 0x1F, CHR 0x20, CHR 0x85, CHR 0xA0]"

definition linebreaks :: "char list" where
  "linebreaks = [CHR 0x0A, CHR 0x0B, CHR 0x0C, CHR 0x0D, CHR 0x1C, CHR 0x1D, CHR 0x1E, CHR 0x85]"

definition decimals :: "char list" where
  "decimals = ''0123456789''"

definition digit_chars :: "char list" where
  "digit_chars = decimals @ [CHR 0xB2, CHR 0xB3, CHR 0xB9]"

definition is_space :: "char \<Rightarrow> bool" where
  "is_space c = (c \<in> set whitespace)"

definition is_linebreak :: "char \<Rightarrow> bool" where
  "is_linebreak c = (c \<in> set linebreaks)"

definition is_decimal :: "char \<Rightarrow> bool" where
  "is_decimal c = (c \<in> set decimals)"

text \<open>\<^verbatim>\<open>s.isdigit()\<close>: false on the empty string.\<close>

definition isdigit :: "string \<Rightarrow> bool" where
  "isdigit s = (s \<noteq> [] \<and> list_all (\<lambda>c. c \<in> set digit_chars) s)"

text \<open>\<^verbatim>\<open>s.strip()\<close> and \<^verbatim>\<open>s.startswith(p)\<close>.\<close>

definition strip :: "string \<Rightarrow> string" where
  "strip s = rev (dropWhile is_space (rev (dropWhile is_space s)))"

definition startswith :: "string \<Rightarrow> string \<Rightarrow> bool" where
  "startswith s p = (take (length p) s = p)"

text \<open>\<^verbatim>\<open>sep.join(xs)\<close>.\<close>

fun join :: "string \<Rightarrow> string list \<Rightarrow> string" where
  "join sep [] = []"
| "join sep [x] = x"
| "join sep (x # y # ys) = x @ sep @ join sep (y # ys)"

text \<open>
  \<^verbatim>\<open>s.splitlines()\<close>: a line ends at a line break character, a carriage return followed
  by a line feed counts as one break, the breaks are not part of the lines, and no empty
  line is reported after a final break. The first argument collects the current line.
\<close>

fun splitlines_from :: "string \<Rightarrow> string \<Rightarrow> string list" where
  "splitlines_from cur [] = (if cur = [] then [] else [cur])"
| "splitlines_from cur [c] = (if is_linebreak c then [cur] else [cur @ [c]])"
| "splitlines_from cur (c # d # cs) =
     (if c = CHR 0x0D \<and> d = CHR 0x0A then cur # splitlines_from [] cs
      else if is_linebreak c then cur # splitlines_from [] (d # cs)
      else splitlines_from (cur @ [c]) (d # cs))"

definition splitlines :: "string \<Rightarrow> string list" where
  "splitlines s = splitlines_from [] s"

text \<open>The decimal text of an integer, as \<^verbatim>\<open>str.format\<close> prints it.\<close>

definition digit_char :: "nat \<Rightarrow> char" where
  "digit_char d = decimals ! d"

function str_of_nat :: "nat \<Rightarrow> string" where
  "str_of_nat n = (if n < 10 then [digit_char n] else str_of_nat (n div 10) @ [digit_char (n mod 10)])"
  by pat_completeness auto
termination
  by (relation "measure id") auto

declare str_of_nat.simps [simp del]

definition str_of_int :: "int \<Rightarrow> string" where
  "str_of_int i = (if i < 0 then CHR ''-'' # str_of_nat (nat (- i)) else str_of_nat (nat i))"

section \<open>The macro pattern\<close>

text \<open>
  \<^verbatim>\<open>WAPITI_MACRO_PATTERN\<close> is the regular expression
  \<^verbatim>\<open>(?P<macro>%[xXtTmM])\[\s*(?P<offset>[-]?\d+)\s*,\s*(?P<column>[^\],\s]+)\s*(?P<rest>[\],])\<close>
  (written in verbose mode in the source). A match is modelled by a backtracking matcher in
  continuation style: every quantifier is greedy and hands the text it matched and the
  remaining input to its continuation, giving back one character at a time when the
  continuation fails, as the \<^verbatim>\<open>re\<close> engine does.
\<close>

record groups =
  macro :: string
  offset :: string
  column :: string
  rest :: string

text \<open>\<open>re_chr p\<close>: one character of class \<open>p\<close>.\<close>

definition re_chr :: "(char \<Rightarrow> bool) \<Rightarrow> (char \<Rightarrow> string \<Rightarrow> 'a option) \<Rightarrow> string \<Rightarrow> 'a option" where
  "re_chr p k s = (case s of [] \<Rightarrow> None | c # cs \<Rightarrow> if p c then k c cs else None)"

text \<open>\<open>re_star p\<close>: greedy \<^verbatim>\<open>p*\<close>; \<open>acc\<close> is the text matched so far.\<close>

fun re_star_from :: "(char \<Rightarrow> bool) \<Rightarrow> (string \<Rightarrow> string \<Rightarrow> 'a option) \<Rightarrow> string \<Rightarrow> string \<Rightarrow> 'a option" where
  "re_star_from p k acc [] = k acc []"
| "re_star_from p k acc (c # cs) =
     (if p c then
        (case re_star_from p k (acc @ [c]) cs of
           Some r \<Rightarrow> Some r
         | None \<Rightarrow> k acc (c # cs))
      else k acc (c # cs))"

definition re_star :: "(char \<Rightarrow> bool) \<Rightarrow> (string \<Rightarrow> string \<Rightarrow> 'a option) \<Rightarrow> string \<Rightarrow> 'a option" where
  "re_star p k s = re_star_from p k [] s"

text \<open>\<open>re_plus p\<close>: greedy \<^verbatim>\<open>p+\<close>.\<close>

definition re_plus :: "(char \<Rightarrow> bool) \<Rightarrow> (string \<Rightarrow> string \<Rightarrow> 'a option) \<Rightarrow> string \<Rightarrow> 'a option" where
  "re_plus p k s = (case s of [] \<Rightarrow> None | c # cs \<Rightarrow> if p c then re_star_from p k [c] cs else None)"

text \<open>\<open>re_opt p\<close>: greedy \<^verbatim>\<open>p?\<close>.\<close>

definition re_opt :: "(char \<Rightarrow> bool) \<Rightarrow> (string \<Rightarrow> string \<Rightarrow> 'a option) \<Rightarrow> string \<Rightarrow> 'a option" where
  "re_opt p k s =
     (case s of
        [] \<Rightarrow> k [] []
      | c # cs \<Rightarrow>
          if p c then (case k [c] cs of Some r \<Rightarrow> Some r | None \<Rightarrow> k [] s) else k [] s)"

definition is_sigil :: "char \<Rightarrow> bool" where
  "is_sigil c = (c \<in> set ''xXtTmM'')"

definition is_column_char :: "char \<Rightarrow> bool" where
  "is_column_char c = (c \<noteq> CHR '']'' \<and> c \<noteq> CHR '','' \<and> \<not> is_space c)"

definition is_rest_char :: "char \<Rightarrow> bool" where
  "is_rest_char c = (c = CHR '']'' \<or> c = CHR '','')"

text \<open>
  A match of the pattern at the start of the input: the four named groups and the input
  left after the match.
\<close>

definition WAPITI_MACRO_PATTERN :: "string \<Rightarrow> (groups \<times> string) option" where
  "WAPITI_MACRO_PATTERN =
     re_chr (\<lambda>c. c = CHR ''%'') (\<lambda>pc.
     re_chr is_sigil (\<lambda>sg.
     re_chr (\<lambda>c. c = CHR ''['') (\<lambda>_.
     re_star is_space (\<lambda>_.
     re_opt (\<lambda>c. c = CHR ''-'') (\<lambda>sign.
     re_plus is_decimal (\<lambda>ds.
     re_star is_space (\<lambda>_.
     re_chr (\<lambda>c. c = CHR '','') (\<lambda>_.
     re_star is_space (\<lambda>_.
     re_plus is_column_char (\<lambda>col.
     re_star is_space (\<lambda>_.
     re_chr is_rest_char (\<lambda>r s'.
       Some (\<lparr>macro = [pc, sg], offset = sign @ ds, column = col, rest = [r]\<rparr>, s')
     ))))))))))))"

section \<open>Template compilation\<close>

datatype error =
  KeyError string
| TypeError
| ValueError
| AssertionError
| IndexError
| OSError
| ProcessError

text \<open>
  The function \<^verbatim>\<open>repl\<close> inside \<^verbatim>\<open>prepare_wapiti_template\<close>. The vocabulary is a
  dictionary from feature names to column indices, or \<^verbatim>\<open>None\<close> (what
  \<^verbatim>\<open>WapitiFeatureEncoder.vocabulary_\<close> holds before fitting): subscripting \<^verbatim>\<open>None\<close>
  raises \<^verbatim>\<open>TypeError\<close>, a missing key raises \<^verbatim>\<open>KeyError\<close>.
\<close>

definition format_macro :: "groups \<Rightarrow> string \<Rightarrow> string" where
  "format_macro m col = macro m @ ''['' @ offset m @ '','' @ col @ rest m"

definition repl :: "(string \<rightharpoonup> int) option \<Rightarrow> groups \<Rightarrow> error + string" where
  "repl vocabulary m =
     (if \<not> isdigit (column m) then
        (case vocabulary of
           None \<Rightarrow> Inl TypeError
         | Some v \<Rightarrow>
             (case v (column m) of
                None \<Rightarrow> Inl (KeyError (column m))
              | Some i \<Rightarrow> Inr (format_macro m (str_of_int i))))
      else Inr (format_macro m (column m)))"

text \<open>
  \<^verbatim>\<open>WAPITI_MACRO_PATTERN.sub(repl, line)\<close>: the line is scanned from left to right; where
  the pattern matches, the replacement is computed and the scan goes on after the match;
  elsewhere the character is copied. An exception of the replacement function ends the scan.
\<close>

function (sequential) sub :: "(groups \<Rightarrow> error + string) \<Rightarrow> string \<Rightarrow> error + string" where
  "sub f [] = Inr []"
| "sub f (c # cs) =
     (case WAPITI_MACRO_PATTERN (c # cs) of
        None \<Rightarrow> (case sub f cs of Inl e \<Rightarrow> Inl e | Inr out \<Rightarrow> Inr (c # out))
      | Some (m, s') \<Rightarrow>
          (case f m of
             Inl e \<Rightarrow> Inl e
           | Inr new \<Rightarrow> (case sub f s' of Inl e \<Rightarrow> Inl e | Inr out \<Rightarrow> Inr (new @ out))))"
  by pat_completeness auto

definition wapiti_line_is_comment :: "string \<Rightarrow> bool" where
  "wapiti_line_is_comment line = startswith (strip line) ''#''"

text \<open>A list comprehension whose element expression may raise: the first exception wins.\<close>

fun list_comp :: "('a \<Rightarrow> error + 'b) \<Rightarrow> 'a list \<Rightarrow> error + 'b list" where
  "list_comp f [] = Inr []"
| "list_comp f (x # xs) =
     (case f x of
        Inl e \<Rightarrow> Inl e
      | Inr y \<Rightarrow> (case list_comp f xs of Inl e \<Rightarrow> Inl e | Inr ys \<Rightarrow> Inr (y # ys)))"

text \<open>The element expression of the comprehension in \<^verbatim>\<open>prepare_wapiti_template\<close>.\<close>

definition compile_line :: "(string \<rightharpoonup> int) option \<Rightarrow> string \<Rightarrow> error + string" where
  "compile_line vocabulary line =
     (if \<not> wapiti_line_is_comment line then sub (repl vocabulary) line else Inr line)"

definition prepare_wapiti_template :: "string \<Rightarrow> (string \<rightharpoonup> int) option \<Rightarrow> error + string" where
  "prepare_wapiti_template template vocabulary =
     (case list_comp (compile_line vocabulary) (splitlines template) of
        Inl e \<Rightarrow> Inl e
      | Inr lines \<Rightarrow> Inr (join ''\<newline>'' lines))"

text \<open>
  The scan that \<^verbatim>\<open>sub\<close> performs, as a list of pieces: a character that is copied, or
  a match with its groups and the text it covers. The claims about ``recognized macros''
  and ``non-macro text'' are stated with it.
\<close>

datatype piece = Plain char | Macro groups string

function (sequential) scan :: "string \<Rightarrow> piece list" where
  "scan [] = []"
| "scan (c # cs) =
     (case WAPITI_MACRO_PATTERN (c # cs) of
        None \<Rightarrow> Plain c # scan cs
      | Some (m, s') \<Rightarrow> Macro m (take (length (c # cs) - length s') (c # cs)) # scan s')"
  by pat_completeness auto

fun piece_source :: "piece \<Rightarrow> string" where
  "piece_source (Plain c) = [c]"
| "piece_source (Macro m txt) = txt"

fun piece_out :: "(groups \<Rightarrow> error + string) \<Rightarrow> piece \<Rightarrow> error + string" where
  "piece_out f (Plain c) = Inr [c]"
| "piece_out f (Macro m txt) = f m"

section \<open>The feature encoder\<close>

text \<open>
  Feature values are Python objects; \<open>PNone\<close> is \<^verbatim>\<open>None\<close>, which is also what
  \<^verbatim>\<open>dict.get\<close> returns for a missing key. A feature dictionary is an association list
  with one entry per key, in the dictionary's internal key order.
\<close>

datatype pyval = PNone | PStr string | PInt int | PBool bool

type_synonym features = "(string \<times> pyval) list"

definition dict_get :: "features \<Rightarrow> string \<Rightarrow> pyval" where
  "dict_get dct key = (case map_of dct key of None \<Rightarrow> PNone | Some v \<Rightarrow> v)"

text \<open>\<^verbatim>\<open>dict(pairs)\<close>: a later pair replaces an earlier one with the same key.\<close>

definition dict_of :: "('k \<times> 'v) list \<Rightarrow> ('k \<rightharpoonup> 'v)" where
  "dict_of pairs = map_of (rev pairs)"

text \<open>
  The fields \<^verbatim>\<open>feature_names_\<close> and \<^verbatim>\<open>vocabulary_\<close> of the source are written
  without the final underscore.
\<close>

record encoder =
  move_to_front :: "string list"
  feature_names :: "string list option"
  vocabulary :: "(string \<rightharpoonup> int) option"

text \<open>\<^verbatim>\<open>WapitiFeatureEncoder.__init__\<close>.\<close>

definition WapitiFeatureEncoder :: "string list \<Rightarrow> encoder" where
  "WapitiFeatureEncoder mtf = \<lparr>move_to_front = mtf, feature_names = None, vocabulary = None\<rparr>"

text \<open>
  Modelled from the spec: \<^verbatim>\<open>get_combined_keys\<close> is imported from \<^verbatim>\<open>.utils\<close>, which is
  not among the sources. The spec has the fit compute ``the full set of feature names
  present across all observations'' of a sequence.
\<close>

definition get_combined_keys :: "features list \<Rightarrow> string set" where
  "get_combined_keys dicts = set (concat (map (map fst) dicts))"

text \<open>
  \<^verbatim>\<open>WapitiFeatureEncoder.partial_fit\<close>. The order in which \<^verbatim>\<open>tuple(keys)\<close> lists a
  set is not fixed by the language; it is the parameter \<open>tuple_of\<close>, of which the theorems
  assume only that it lists every element of a finite set once (\<open>enumerates\<close>).
\<close>

definition enumerates :: "(string set \<Rightarrow> string list) \<Rightarrow> bool" where
  "enumerates tuple_of = (\<forall>S. finite S \<longrightarrow> set (tuple_of S) = S \<and> distinct (tuple_of S))"

text \<open>The pairs \<^verbatim>\<open>(f, i) for i, f in enumerate(names)\<close>, counting from \<open>n\<close>.\<close>

definition column_pairs :: "nat \<Rightarrow> string list \<Rightarrow> (string \<times> int) list" where
  "column_pairs n names = map (\<lambda>(i, f). (f, int i)) (enumerate n names)"

definition partial_fit :: "(string set \<Rightarrow> string list) \<Rightarrow> encoder \<Rightarrow> features list list \<Rightarrow> encoder" where
  "partial_fit tuple_of self X =
     (let keys0 = (case feature_names self of None \<Rightarrow> {} | Some names \<Rightarrow> set names);
          mtf = set (move_to_front self);
          keys = foldl (\<lambda>keys feature_dicts. (keys \<union> get_combined_keys feature_dicts) - mtf) keys0 X;
          names = move_to_front self @ tuple_of keys
      in self\<lparr>feature_names := Some names,
              vocabulary := Some (dict_of (column_pairs 0 names))\<rparr>)"

definition encoder_fit :: "(string set \<Rightarrow> string list) \<Rightarrow> encoder \<Rightarrow> features list list \<Rightarrow> encoder" where
  "encoder_fit tuple_of self X = partial_fit tuple_of self X"

text \<open>\<^verbatim>\<open>WapitiFeatureEncoder.reset\<close>.\<close>

definition reset :: "encoder \<Rightarrow> encoder" where
  "reset self = self\<lparr>feature_names := None\<rparr>"

text \<open>
  \<^verbatim>\<open>WapitiFeatureEncoder.transform_single\<close> and \<^verbatim>\<open>transform\<close>. The function
  \<^verbatim>\<open>tostr\<close> is imported from \<^verbatim>\<open>.utils\<close>, which is not among the sources; it is a
  parameter. Iterating over \<^verbatim>\<open>feature_names_\<close> while it is \<^verbatim>\<open>None\<close> raises
  \<^verbatim>\<open>TypeError\<close>, at the first dictionary.
\<close>

definition transform_single :: "(pyval \<Rightarrow> string) \<Rightarrow> encoder \<Rightarrow> features list \<Rightarrow> error + string list" where
  "transform_single tostr self feature_dicts =
     list_comp (\<lambda>dct.
        case feature_names self of
          None \<Rightarrow> Inl TypeError
        | Some names \<Rightarrow> Inr (join '' '' (map (\<lambda>key. tostr (dict_get dct key)) names)))
       feature_dicts"

definition encoder_transform :: "(pyval \<Rightarrow> string) \<Rightarrow> encoder \<Rightarrow> features list list \<Rightarrow> error + string list list" where
  "encoder_transform tostr self X = list_comp (transform_single tostr self) X"

text \<open>\<^verbatim>\<open>WapitiFeatureEncoder.prepare_template\<close>.\<close>

definition prepare_template :: "encoder \<Rightarrow> string \<Rightarrow> error + string" where
  "prepare_template self template = prepare_wapiti_template template (vocabulary self)"

text \<open>\<^verbatim>\<open>WapitiFeatureEncoder.unigram_features_template\<close>.\<close>

definition unigram_features_template :: "encoder \<Rightarrow> string \<Rightarrow> error + string" where
  "unigram_features_template self scope =
     (case feature_names self of
        None \<Rightarrow> Inl TypeError
      | Some names \<Rightarrow>
          Inr (join ''\<newline>''
                 (''\<newline># Unigrams for all custom features'' #
                  map (\<lambda>(col, name). scope @ ''feat:'' @ name @ ''=%x[0,'' @ str_of_nat col @ '']'')
                    (enumerate 0 names))
               @ ''\<newline>''))"

section \<open>The chunker\<close>



text \<open>
  \<^verbatim>\<open>s.rsplit()\<close> without arguments: the maximal runs of characters that are not white
  space, in order. The first argument collects the current run.
\<close>

fun rsplit_from :: "string \<Rightarrow> string \<Rightarrow> string list" where
  "rsplit_from cur [] = (if cur = [] then [] else [cur])"
| "rsplit_from cur (c # cs) =
     (if is_space c then (if cur = [] then rsplit_from [] cs else cur # rsplit_from [] cs)
      else rsplit_from (cur @ [c]) cs)"

definition rsplit :: "string \<Rightarrow> string list" where
  "rsplit s = rsplit_from [] s"








section \<open>The trainer\<close>

text \<open>
  \<^verbatim>\<open>WapitiCRF\<close> writes temporary files and runs the external \<^verbatim>\<open>wapiti\<close> program. The
  file system is a map from paths to contents; every creation, write and removal of a
  file and every run of the program is also recorded, in order, in a trace. The random
  part of a temporary file's name is modelled by a serial number. The fields of the
  class are written without their final underscore.
\<close>

datatype event = Created string | Wrote string string | Unlinked string | Ran "string list"

record world =
  files :: "string \<rightharpoonup> string"
  trace :: "event list"
  serial :: nat

record crf =
  model_filname :: string
  wapiti_args :: "string list"
  feature_template :: string
  unigrams_scope :: "string option"
  tempdir :: "string option"
  unlink_temp :: bool
  verbose :: bool
  feature_encoder :: encoder

text \<open>
  \<^verbatim>\<open>run_command\<close> is imported from \<^verbatim>\<open>.utils\<close>, which is not among the sources: it
  is a parameter that, given the command line, the verbosity flag and the files, returns
  the exception it raises, if any, and the files as the program leaves them.
\<close>

type_synonym runner = "string list \<Rightarrow> bool \<Rightarrow> (string \<rightharpoonup> string) \<Rightarrow> error option \<times> (string \<rightharpoonup> string)"

definition WAPITI_CMD :: string where
  "WAPITI_CMD = ''wapiti''"

definition temp_name :: "string option \<Rightarrow> string \<Rightarrow> string \<Rightarrow> nat \<Rightarrow> string" where
  "temp_name dir prefix suffix n =
     (case dir of None \<Rightarrow> ''/tmp'' | Some d \<Rightarrow> d) @ ''/'' @ prefix @ str_of_nat n @ suffix"

text \<open>\<^verbatim>\<open>tempfile.NamedTemporaryFile(..., delete=False)\<close> and \<^verbatim>\<open>tempfile.mkstemp\<close>.\<close>

definition create_temp :: "string option \<Rightarrow> string \<Rightarrow> string \<Rightarrow> world \<Rightarrow> string \<times> world" where
  "create_temp dir prefix suffix w =
     (let name = temp_name dir prefix suffix (serial w)
      in (name, w\<lparr>files := (files w)(name \<mapsto> []),
                  trace := trace w @ [Created name],
                  serial := Suc (serial w)\<rparr>))"

definition write_file :: "string \<Rightarrow> string \<Rightarrow> world \<Rightarrow> world" where
  "write_file name data w =
     w\<lparr>files := (files w)(name \<mapsto> (case files w name of None \<Rightarrow> data | Some old \<Rightarrow> old @ data)),
       trace := trace w @ [Wrote name data]\<rparr>"

text \<open>\<^verbatim>\<open>os.unlink\<close>: an exception if the file does not exist.\<close>

definition unlink :: "string \<Rightarrow> world \<Rightarrow> (error + unit) \<times> world" where
  "unlink name w =
     (if files w name = None then (Inl OSError, w)
      else (Inr (), w\<lparr>files := (files w)(name := None), trace := trace w @ [Unlinked name]\<rparr>))"

text \<open>\<^verbatim>\<open>s.encode('utf8')\<close> for code points below 256.\<close>

definition utf8_char :: "char \<Rightarrow> string" where
  "utf8_char c =
     (let n = (of_char c :: nat)
      in if n < 128 then [c] else [char_of (192 + n div 64), char_of (128 + n mod 64)])"

definition encode_utf8 :: "string \<Rightarrow> string" where
  "encode_utf8 s = concat (map utf8_char s)"

text \<open>The truth value of an optional list or string, as \<^verbatim>\<open>any([...])\<close> takes it.\<close>

definition truthy :: "'a list option \<Rightarrow> bool" where
  "truthy v = (case v of None \<Rightarrow> False | Some xs \<Rightarrow> xs \<noteq> [])"

text \<open>\<^verbatim>\<open>WapitiCRF._to_train_sequence\<close>.\<close>

definition to_train_sequence :: "string list \<Rightarrow> string list \<Rightarrow> string" where
  "to_train_sequence wapiti_lines tags =
     join ''\<newline>'' (map (\<lambda>(line, tag). line @ '' '' @ tag) (zip wapiti_lines tags))"

text \<open>
  \<^verbatim>\<open>WapitiCRF._create_wapiti_data_file\<close>. The labels \<open>y\<close> may be \<^verbatim>\<open>None\<close> (\<^verbatim>\<open>fit\<close>
  passes its \<^verbatim>\<open>y_dev\<close> on as it is); \<^verbatim>\<open>zip\<close> then raises \<^verbatim>\<open>TypeError\<close>.
\<close>

definition create_wapiti_data_file ::
  "(pyval \<Rightarrow> string) \<Rightarrow> crf \<Rightarrow> features list list \<Rightarrow> string list list option \<Rightarrow> world \<Rightarrow> (error + string) \<times> world" where
  "create_wapiti_data_file tostr self X y w =
     (case encoder_transform tostr (feature_encoder self) X of
        Inl e \<Rightarrow> (Inl e, w)
      | Inr X' \<Rightarrow>
     (case y of
        None \<Rightarrow> (Inl TypeError, w)
      | Some y' \<Rightarrow>
          let wapiti_sequences = map (\<lambda>(lines, tags). to_train_sequence lines tags) (zip X' y');
              (name, w1) = create_temp (tempdir self) ''wapiti-data-'' ''.txt'' w
          in (Inr name,
              foldl (\<lambda>w seq. write_file name ''\<newline>\<newline>'' (write_file name (encode_utf8 seq) w))
                w1 wapiti_sequences)))"

text \<open>\<^verbatim>\<open>WapitiCRF._create_wapiti_feature_template_file\<close>.\<close>

definition create_wapiti_feature_template_file :: "crf \<Rightarrow> world \<Rightarrow> (error + string) \<times> world" where
  "create_wapiti_feature_template_file self w =
     (let (name, w1) = create_temp (tempdir self) ''feature-template-'' ''.txt'' w in
      case prepare_template (feature_encoder self) (feature_template self) of
        Inl e \<Rightarrow> (Inl e, w1)
      | Inr template \<Rightarrow>
          let w2 = write_file name (encode_utf8 template) w1 in
          (case unigrams_scope self of
             None \<Rightarrow> (Inr name, w2)
           | Some scope \<Rightarrow>
               (case unigram_features_template (feature_encoder self) scope of
                  Inl e \<Rightarrow> (Inl e, w2)
                | Inr unigram_template \<Rightarrow>
                    (Inr name,
                     write_file name (encode_utf8 unigram_template) (write_file name ''\<newline>'' w2)))))"

text \<open>\<^verbatim>\<open>WapitiCRF.run_wapiti\<close>.\<close>

definition run_wapiti :: "runner \<Rightarrow> crf \<Rightarrow> string list \<Rightarrow> world \<Rightarrow> (error + unit) \<times> world" where
  "run_wapiti run_command self args w =
     (let (raised, fs) = run_command (WAPITI_CMD # args) (verbose self) (files w);
          w1 = w\<lparr>files := fs, trace := trace w @ [Ran (WAPITI_CMD # args)]\<rparr>
      in (case raised of None \<Rightarrow> Inr () | Some e \<Rightarrow> Inl e, w1))"

text \<open>
  The block \<^verbatim>\<open>if X_dev is not None:\<close> of \<^verbatim>\<open>fit\<close>: the development file and the
  output path, if development data is used, and the names it adds to \<^verbatim>\<open>to_unlink\<close>.
\<close>

definition dev_files ::
  "(pyval \<Rightarrow> string) \<Rightarrow> crf \<Rightarrow> features list list option \<Rightarrow> string list list option \<Rightarrow> string option \<Rightarrow>
     world \<Rightarrow> (error + ((string \<times> string) option \<times> string list)) \<times> world" where
  "dev_files tostr self X_dev y_dev out_dev w =
     (case X_dev of
        None \<Rightarrow> (Inr (None, []), w)
      | Some Xd \<Rightarrow>
          (case create_wapiti_data_file tostr self Xd y_dev w of
             (Inl e, w1) \<Rightarrow> (Inl e, w1)
           | (Inr dev_fn, w1) \<Rightarrow>
               (case out_dev of
                  None \<Rightarrow>
                    let (name, w2) = create_temp (tempdir self) ''wapiti-dev-data'' ''.txt'' w1
                    in (Inr (Some (dev_fn, name), [name]), w2)
                | Some od \<Rightarrow> (Inr (Some (dev_fn, od), []), w1))))"

text \<open>
  The \<^verbatim>\<open>try\<close> block of \<^verbatim>\<open>fit\<close>: its outcome, the list \<^verbatim>\<open>to_unlink\<close> as it stands
  when the block is left, and the world.
\<close>

definition fit_try ::
  "(pyval \<Rightarrow> string) \<Rightarrow> runner \<Rightarrow> crf \<Rightarrow> features list list \<Rightarrow> string list list \<Rightarrow>
     features list list option \<Rightarrow> string list list option \<Rightarrow> string option \<Rightarrow> world \<Rightarrow>
     (error + unit) \<times> string list \<times> world" where
  "fit_try tostr run_command self X y X_dev y_dev out_dev w =
     (case create_wapiti_data_file tostr self X (Some y) w of
        (Inl e, w1) \<Rightarrow> (Inl e, [], w1)
      | (Inr train_fn, w1) \<Rightarrow>
     (case dev_files tostr self X_dev y_dev out_dev w1 of
        (Inl e, w2) \<Rightarrow> (Inl e, [train_fn], w2)
      | (Inr (dev, added), w2) \<Rightarrow>
     (case create_wapiti_feature_template_file self w2 of
        (Inl e, w3) \<Rightarrow> (Inl e, [train_fn] @ added, w3)
      | (Inr template_fn, w3) \<Rightarrow>
          let to_unlink = [train_fn] @ added @ [template_fn];
              args = [''train'', ''--pattern'', template_fn] @ wapiti_args self @
                     (case dev of
                        Some (dev_fn, od) \<Rightarrow> if dev_fn \<noteq> [] then [''--devel'', dev_fn] else []
                      | None \<Rightarrow> []) @
                     [train_fn, model_filname self]
          in (case run_wapiti run_command self args w3 of
                (Inl e, w4) \<Rightarrow> (Inl e, to_unlink, w4)
              | (Inr u, w4) \<Rightarrow>
                  (case dev of
                     Some (dev_fn, od) \<Rightarrow>
                       if dev_fn \<noteq> [] then
                         (case run_wapiti run_command self
                                 [''label'', ''-m'', model_filname self, ''--check'', dev_fn, od] w4 of
                            (r, w5) \<Rightarrow> (r, to_unlink, w5))
                       else (Inr (), to_unlink, w4)
                   | None \<Rightarrow> (Inr (), to_unlink, w4))))))"

text \<open>The loop of the \<^verbatim>\<open>finally\<close> block.\<close>

fun unlink_all :: "string list \<Rightarrow> world \<Rightarrow> (error + unit) \<times> world" where
  "unlink_all [] w = (Inr (), w)"
| "unlink_all (filename # filenames) w =
     (case unlink filename w of
        (Inl e, w1) \<Rightarrow> (Inl e, w1)
      | (Inr u, w1) \<Rightarrow> unlink_all filenames w1)"

text \<open>
  \<^verbatim>\<open>WapitiCRF.fit\<close>: the exception raised, if any, the estimator and the world after
  the call. An exception of the \<^verbatim>\<open>finally\<close> block replaces the one of the \<^verbatim>\<open>try\<close>
  block.
\<close>

definition crf_fit ::
  "(string set \<Rightarrow> string list) \<Rightarrow> (pyval \<Rightarrow> string) \<Rightarrow> runner \<Rightarrow> crf \<Rightarrow> features list list \<Rightarrow>
     string list list \<Rightarrow> features list list option \<Rightarrow> string list list option \<Rightarrow> string option \<Rightarrow>
     world \<Rightarrow> (error + unit) \<times> crf \<times> world" where
  "crf_fit tuple_of tostr run_command self X y X_dev y_dev out_dev w =
     (if (truthy X_dev \<or> truthy y_dev \<or> truthy out_dev) \<and> (X_dev = None \<or> y_dev = None)
      then (Inl ValueError, self, w)
      else
        let self1 = self\<lparr>feature_encoder := encoder_fit tuple_of (reset (feature_encoder self)) X\<rparr>;
            (r, to_unlink, w1) = fit_try tostr run_command self1 X y X_dev y_dev out_dev w
        in if unlink_temp self1 then
             (case unlink_all to_unlink w1 of
                (Inl e, w2) \<Rightarrow> (Inl e, self1, w2)
              | (Inr u, w2) \<Rightarrow> (r, self1, w2))
           else (r, self1, w1))"

section \<open>Facts about the pattern\<close>

lemmas char_class_defs = is_space_def whitespace_def is_linebreak_def linebreaks_def
  is_decimal_def decimals_def digit_chars_def is_sigil_def is_column_char_def is_rest_char_def

lemmas re_defs = WAPITI_MACRO_PATTERN_def re_chr_def re_star_def re_plus_def re_opt_def

lemma re_chr_SomeD:
  "re_chr p k s = Some r \<Longrightarrow> \<exists>c cs. s = c # cs \<and> p c \<and> k c cs = Some r"
  by (auto simp: re_chr_def split: list.splits if_splits)

lemma re_star_from_SomeD:
  "re_star_from p k acc s = Some r \<Longrightarrow> \<exists>m t. s = m @ t \<and> list_all p m \<and> k (acc @ m) t = Some r"
proof (induction s arbitrary: acc)
  case Nil
  then show ?case by simp
next
  case (Cons c cs)
  show ?case
  proof (cases "p c \<and> re_star_from p k (acc @ [c]) cs = Some r")
    case True
    then obtain m t where "cs = m @ t" "list_all p m" "k ((acc @ [c]) @ m) t = Some r"
      using Cons.IH by blast
    then have "c # cs = (c # m) @ t \<and> list_all p (c # m) \<and> k (acc @ (c # m)) t = Some r"
      using True by simp
    then show ?thesis by blast
  next
    case False
    then have "k acc (c # cs) = Some r"
      using Cons.prems by (auto split: if_splits option.splits)
    then have "c # cs = [] @ (c # cs) \<and> list_all p [] \<and> k (acc @ []) (c # cs) = Some r" by simp
    then show ?thesis by blast
  qed
qed

lemma re_star_SomeD:
  "re_star p k s = Some r \<Longrightarrow> \<exists>m t. s = m @ t \<and> list_all p m \<and> k m t = Some r"
  using re_star_from_SomeD [of p k "[]" s r] by (simp add: re_star_def)

lemma re_plus_SomeD:
  "re_plus p k s = Some r \<Longrightarrow> \<exists>m t. s = m @ t \<and> m \<noteq> [] \<and> list_all p m \<and> k m t = Some r"
proof -
  assume a: "re_plus p k s = Some r"
  then obtain c cs where s: "s = c # cs" "p c" "re_star_from p k [c] cs = Some r"
    by (cases s) (auto simp: re_plus_def split: if_splits)
  obtain m t where mt: "cs = m @ t" "list_all p m" "k ([c] @ m) t = Some r"
    using re_star_from_SomeD [OF s(3)] by auto
  have "s = (c # m) @ t \<and> c # m \<noteq> [] \<and> list_all p (c # m) \<and> k (c # m) t = Some r"
    using s mt by simp
  then show ?thesis by blast
qed

lemma re_opt_SomeD:
  "re_opt p k s = Some r \<Longrightarrow> \<exists>m t. s = m @ t \<and> length m \<le> 1 \<and> list_all p m \<and> k m t = Some r"
proof (cases s)
  case Nil
  assume "re_opt p k s = Some r"
  then have "s = [] @ [] \<and> length ([]::string) \<le> 1 \<and> list_all p [] \<and> k [] [] = Some r"
    using Nil by (simp add: re_opt_def)
  then show ?thesis by blast
next
  case (Cons c cs)
  assume a: "re_opt p k s = Some r"
  show ?thesis
  proof (cases "p c \<and> k [c] cs = Some r")
    case True
    then have "s = [c] @ cs \<and> length [c] \<le> 1 \<and> list_all p [c] \<and> k [c] cs = Some r"
      using Cons by simp
    then show ?thesis by blast
  next
    case False
    then have "k [] s = Some r"
      using a Cons by (auto simp: re_opt_def split: if_splits option.splits)
    then have "s = [] @ s \<and> length ([]::string) \<le> 1 \<and> list_all p [] \<and> k [] s = Some r" by simp
    then show ?thesis by blast
  qed
qed

lemma WAPITI_MACRO_PATTERN_SomeD:
  assumes "WAPITI_MACRO_PATTERN s = Some (m, s')"
  shows "\<exists>sg w1 sign ds w2 w3 col w4 r.
     s = CHR ''%'' # sg # CHR ''['' # w1 @ sign @ ds @ w2 @ CHR '','' # w3 @ col @ w4 @ r # s' \<and>
     is_sigil sg \<and> list_all is_space w1 \<and> (sign = [] \<or> sign = ''-'') \<and>
     ds \<noteq> [] \<and> list_all is_decimal ds \<and> list_all is_space w2 \<and> list_all is_space w3 \<and>
     col \<noteq> [] \<and> list_all is_column_char col \<and> list_all is_space w4 \<and> is_rest_char r \<and>
     m = \<lparr>macro = [CHR ''%'', sg], offset = sign @ ds, column = col, rest = [r]\<rparr>"
proof -
  note h0 = assms [unfolded WAPITI_MACRO_PATTERN_def]
  obtain pc s1 where 1: "s = pc # s1" "pc = CHR ''%''"
    and h1: "re_chr is_sigil (\<lambda>sg.
     re_chr (\<lambda>c. c = CHR ''['') (\<lambda>_.
     re_star is_space (\<lambda>_.
     re_opt (\<lambda>c. c = CHR ''-'') (\<lambda>sign.
     re_plus is_decimal (\<lambda>ds.
     re_star is_space (\<lambda>_.
     re_chr (\<lambda>c. c = CHR '','') (\<lambda>_.
     re_star is_space (\<lambda>_.
     re_plus is_column_char (\<lambda>col.
     re_star is_space (\<lambda>_.
     re_chr is_rest_char (\<lambda>r s'.
       Some (\<lparr>macro = [pc, sg], offset = sign @ ds, column = col, rest = [r]\<rparr>, s')
     ))))))))))) s1 = Some (m, s')"
    using re_chr_SomeD [OF h0] by auto
  obtain sg s2 where 2: "s1 = sg # s2" "is_sigil sg"
    and h2: "re_chr (\<lambda>c. c = CHR ''['') (\<lambda>_.
     re_star is_space (\<lambda>_.
     re_opt (\<lambda>c. c = CHR ''-'') (\<lambda>sign.
     re_plus is_decimal (\<lambda>ds.
     re_star is_space (\<lambda>_.
     re_chr (\<lambda>c. c = CHR '','') (\<lambda>_.
     re_star is_space (\<lambda>_.
     re_plus is_column_char (\<lambda>col.
     re_star is_space (\<lambda>_.
     re_chr is_rest_char (\<lambda>r s'.
       Some (\<lparr>macro = [pc, sg], offset = sign @ ds, column = col, rest = [r]\<rparr>, s')
     )))))))))) s2 = Some (m, s')"
    using re_chr_SomeD [OF h1] by auto
  obtain br s3 where 3: "s2 = br # s3" "br = CHR ''[''"
    and h3: "re_star is_space (\<lambda>_.
     re_opt (\<lambda>c. c = CHR ''-'') (\<lambda>sign.
     re_plus is_decimal (\<lambda>ds.
     re_star is_space (\<lambda>_.
     re_chr (\<lambda>c. c = CHR '','') (\<lambda>_.
     re_star is_space (\<lambda>_.
     re_plus is_column_char (\<lambda>col.
     re_star is_space (\<lambda>_.
     re_chr is_rest_char (\<lambda>r s'.
       Some (\<lparr>macro = [pc, sg], offset = sign @ ds, column = col, rest = [r]\<rparr>, s')
     ))))))))) s3 = Some (m, s')"
    using re_chr_SomeD [OF h2] by auto
  obtain w1 s4 where 4: "s3 = w1 @ s4" "list_all is_space w1"
    and h4: "re_opt (\<lambda>c. c = CHR ''-'') (\<lambda>sign.
     re_plus is_decimal (\<lambda>ds.
     re_star is_space (\<lambda>_.
     re_chr (\<lambda>c. c = CHR '','') (\<lambda>_.
     re_star is_space (\<lambda>_.
     re_plus is_column_char (\<lambda>col.
     re_star is_space (\<lambda>_.
     re_chr is_rest_char (\<lambda>r s'.
       Some (\<lparr>macro = [pc, sg], offset = sign @ ds, column = col, rest = [r]\<rparr>, s')
     )))))))) s4 = Some (m, s')"
    using re_star_SomeD [OF h3] by auto
  obtain sign s5 where 5: "s4 = sign @ s5" "length sign \<le> 1" "list_all (\<lambda>c. c = CHR ''-'') sign"
    and h5: "re_plus is_decimal (\<lambda>ds.
     re_star is_space (\<lambda>_.
     re_chr (\<lambda>c. c = CHR '','') (\<lambda>_.
     re_star is_space (\<lambda>_.
     re_plus is_column_char (\<lambda>col.
     re_star is_space (\<lambda>_.
     re_chr is_rest_char (\<lambda>r s'.
       Some (\<lparr>macro = [pc, sg], offset = sign @ ds, column = col, rest = [r]\<rparr>, s')
     ))))))) s5 = Some (m, s')"
    using re_opt_SomeD [OF h4] by auto
  obtain ds s6 where 6: "s5 = ds @ s6" "ds \<noteq> []" "list_all is_decimal ds"
    and h6: "re_star is_space (\<lambda>_.
     re_chr (\<lambda>c. c = CHR '','') (\<lambda>_.
     re_star is_space (\<lambda>_.
     re_plus is_column_char (\<lambda>col.
     re_star is_space (\<lambda>_.
     re_chr is_rest_char (\<lambda>r s'.
       Some (\<lparr>macro = [pc, sg], offset = sign @ ds, column = col, rest = [r]\<rparr>, s')
     )))))) s6 = Some (m, s')"
    using re_plus_SomeD [OF h5] by auto
  obtain w2 s7 where 7: "s6 = w2 @ s7" "list_all is_space w2"
    and h7: "re_chr (\<lambda>c. c = CHR '','') (\<lambda>_.
     re_star is_space (\<lambda>_.
     re_plus is_column_char (\<lambda>col.
     re_star is_space (\<lambda>_.
     re_chr is_rest_char (\<lambda>r s'.
       Some (\<lparr>macro = [pc, sg], offset = sign @ ds, column = col, rest = [r]\<rparr>, s')
     ))))) s7 = Some (m, s')"
    using re_star_SomeD [OF h6] by auto
  obtain cm s8 where 8: "s7 = cm # s8" "cm = CHR '',''"
    and h8: "re_star is_space (\<lambda>_.
     re_plus is_column_char (\<lambda>col.
     re_star is_space (\<lambda>_.
     re_chr is_rest_char (\<lambda>r s'.
       Some (\<lparr>macro = [pc, sg], offset = sign @ ds, column = col, rest = [r]\<rparr>, s')
     )))) s8 = Some (m, s')"
    using re_chr_SomeD [OF h7] by auto
  obtain w3 s9 where 9: "s8 = w3 @ s9" "list_all is_space w3"
    and h9: "re_plus is_column_char (\<lambda>col.
     re_star is_space (\<lambda>_.
     re_chr is_rest_char (\<lambda>r s'.
       Some (\<lparr>macro = [pc, sg], offset = sign @ ds, column = col, rest = [r]\<rparr>, s')
     ))) s9 = Some (m, s')"
    using re_star_SomeD [OF h8] by auto
  obtain col s10 where 10: "s9 = col @ s10" "col \<noteq> []" "list_all is_column_char col"
    and h10: "re_star is_space (\<lambda>_.
     re_chr is_rest_char (\<lambda>r s'.
       Some (\<lparr>macro = [pc, sg], offset = sign @ ds, column = col, rest = [r]\<rparr>, s')
     )) s10 = Some (m, s')"
    using re_plus_SomeD [OF h9] by auto
  obtain w4 s11 where 11: "s10 = w4 @ s11" "list_all is_space w4"
    and h11: "re_chr is_rest_char (\<lambda>r s'.
       Some (\<lparr>macro = [pc, sg], offset = sign @ ds, column = col, rest = [r]\<rparr>, s')
     ) s11 = Some (m, s')"
    using re_star_SomeD [OF h10] by auto
  obtain r where 12: "s11 = r # s'" "is_rest_char r"
    and m: "m = \<lparr>macro = [pc, sg], offset = sign @ ds, column = col, rest = [r]\<rparr>"
    using re_chr_SomeD [OF h11] by auto
  have sign: "sign = [] \<or> sign = ''-''"
    using 5(2,3) by (cases sign) auto
  have "s = CHR ''%'' # sg # CHR ''['' # w1 @ sign @ ds @ w2 @ CHR '','' # w3 @ col @ w4 @ r # s'"
    using 1 2 3 4 5 6 7 8 9 10 11 12 by simp
  then show ?thesis
    using 1(2) 2(2) 4(2) sign 6(2,3) 7(2) 9(2) 10(2,3) 11(2) 12(2) m by blast
qed

lemma WAPITI_MACRO_PATTERN_shorter:
  "WAPITI_MACRO_PATTERN s = Some (m, s') \<Longrightarrow> length s' < length s"
  using WAPITI_MACRO_PATTERN_SomeD [of s m s'] by auto

termination sub
proof (relation "measure (\<lambda>(f, s). length s)")
  show "wf (measure (\<lambda>(f :: groups \<Rightarrow> error + string, s :: string). length s))"
    by simp
next
  fix f :: "groups \<Rightarrow> error + string" and c :: char and cs :: string
  show "((f, cs), (f, c # cs)) \<in> measure (\<lambda>(f, s). length s)"
    by simp
next
  fix f :: "groups \<Rightarrow> error + string" and c :: char and cs :: string
    and x2 :: "groups \<times> string" and m s' new
  assume "WAPITI_MACRO_PATTERN (c # cs) = Some x2" "(m, s') = x2"
  then have "length s' < length (c # cs)"
    using WAPITI_MACRO_PATTERN_shorter [of "c # cs" m s'] by simp
  then show "((f, s'), (f, c # cs)) \<in> measure (\<lambda>(f, s). length s)"
    by simp
qed

declare sub.simps(2) [simp del]

termination scan
proof (relation "measure length")
  show "wf (measure (length :: string \<Rightarrow> nat))"
    by simp
next
  fix c :: char and cs :: string
  show "(cs, c # cs) \<in> measure length"
    by simp
next
  fix c :: char and cs :: string and x2 :: "groups \<times> string" and m s'
  assume "WAPITI_MACRO_PATTERN (c # cs) = Some x2" "(m, s') = x2"
  then have "length s' < length (c # cs)"
    using WAPITI_MACRO_PATTERN_shorter [of "c # cs" m s'] by simp
  then show "(s', c # cs) \<in> measure length"
    by simp
qed

declare scan.simps(2) [simp del]

lemmas eval_defs = prepare_wapiti_template_def compile_line_def wapiti_line_is_comment_def
  strip_def startswith_def splitlines_def repl_def format_macro_def isdigit_def
  str_of_int_def str_of_nat.simps digit_char_def sub.simps re_defs char_class_defs

section \<open>Helper facts\<close>

lemma enumerates_sorted: "enumerates sorted_list_of_set"
  by (simp add: enumerates_def)

lemma strip_comment:
  assumes "list_all is_space ws"
  shows "wapiti_line_is_comment (ws @ CHR ''#'' # r)"
proof -
  have ns: "\<not> is_space CHR ''#''" by (simp add: char_class_defs)
  have a: "dropWhile is_space (ws @ CHR ''#'' # r) = CHR ''#'' # r"
    using assms ns by (induction ws) auto
  have "rev (dropWhile is_space (rev (CHR ''#'' # r))) \<noteq> []"
    using ns by (simp add: dropWhile_append3) 
  moreover have "hd (rev (dropWhile is_space (rev (CHR ''#'' # r)))) = CHR ''#''"
  proof -
    have "dropWhile is_space (rev r @ [CHR ''#'']) = dropWhile is_space (rev r) @ [CHR ''#'']"
      using ns by (induction "rev r" arbitrary: r) (auto simp: dropWhile_append)
    then show ?thesis by (simp add: hd_append)
  qed
  ultimately show ?thesis
    unfolding wapiti_line_is_comment_def strip_def startswith_def a
    by (cases "rev (dropWhile is_space (rev (CHR ''#'' # r)))") auto
qed

lemma list_comp_Inr_iff:
  "list_comp f xs = Inr ys \<longleftrightarrow> length ys = length xs \<and> (\<forall>i<length xs. f (xs ! i) = Inr (ys ! i))"
proof (induction xs arbitrary: ys)
  case Nil
  then show ?case by auto
next
  case (Cons x xs)
  show ?case
  proof (cases ys)
    case Nil
    then show ?thesis by (auto split: sum.splits)
  next
    case (Cons y ys')
    then show ?thesis
      using Cons.IH [of ys'] by (auto split: sum.splits simp: nth_Cons split: nat.splits)
  qed
qed

lemma list_comp_InlD:
  "list_comp f xs = Inl e \<Longrightarrow> \<exists>j<length xs. f (xs ! j) = Inl e \<and> (\<forall>i<j. \<exists>y. f (xs ! i) = Inr y)"
proof (induction xs)
  case Nil
  then show ?case by simp
next
  case (Cons x xs)
  show ?case
  proof (cases "f x")
    case (Inl e')
    then have "f ((x # xs) ! 0) = Inl e" using Cons.prems by simp
    then show ?thesis by (intro exI [of _ 0]) simp
  next
    case (Inr y)
    then have "list_comp f xs = Inl e" using Cons.prems by (simp split: sum.splits)
    then obtain j where j: "j < length xs" "f (xs ! j) = Inl e" "\<forall>i<j. \<exists>y. f (xs ! i) = Inr y"
      using Cons.IH by blast
    have "\<forall>i<Suc j. \<exists>y. f ((x # xs) ! i) = Inr y"
      using j(3) Inr by (auto simp: nth_Cons split: nat.splits)
    then show ?thesis using j by (intro exI [of _ "Suc j"]) simp
  qed
qed




section \<open>Facts about the scan\<close>

lemma WAPITI_MACRO_PATTERN_take:
  assumes "WAPITI_MACRO_PATTERN s = Some (m, s')"
  shows "take (length s - length s') s @ s' = s"
proof -
  obtain sg w1 sign ds w2 w3 col w4 r where
    "s = CHR ''%'' # sg # CHR ''['' # w1 @ sign @ ds @ w2 @ CHR '','' # w3 @ col @ w4 @ r # s'"
    using WAPITI_MACRO_PATTERN_SomeD [OF assms] by blast
  then have "\<exists>pre. s = pre @ s'"
    by (intro exI [of _ "CHR ''%'' # sg # CHR ''['' # w1 @ sign @ ds @ w2 @ CHR '','' # w3 @ col @ w4 @ [r]"]) simp
  then obtain pre where "s = pre @ s'" by blast
  then show ?thesis by simp
qed

lemma scan_source: "concat (map piece_source (scan s)) = s"
proof (induction s rule: scan.induct)
  case 1
  then show ?case by simp
next
  case (2 c cs)
  show ?case
  proof (cases "WAPITI_MACRO_PATTERN (c # cs)")
    case None
    then show ?thesis using 2(1) by (simp add: scan.simps(2))
  next
    case (Some x)
    obtain m s' where x: "x = (m, s')" by (cases x)
    have "concat (map piece_source (scan s')) = s'"
      using 2(2) [OF Some x [symmetric]] .
    then show ?thesis
      using Some x WAPITI_MACRO_PATTERN_take [of "c # cs" m s']
      by (simp add: scan.simps(2))
  qed
qed

lemma sub_scan:
  "sub f s = (case list_comp (piece_out f) (scan s) of Inl e \<Rightarrow> Inl e | Inr ps \<Rightarrow> Inr (concat ps))"
proof (induction f s rule: sub.induct)
  case (1 f)
  then show ?case by simp
next
  case (2 f c cs)
  show ?case
  proof (cases "WAPITI_MACRO_PATTERN (c # cs)")
    case None
    then show ?thesis using 2(1) by (simp add: sub.simps(2) scan.simps(2) split: sum.splits)
  next
    case (Some x)
    obtain m s' where x: "x = (m, s')" by (cases x)
    show ?thesis
    proof (cases "f m")
      case (Inl e)
      then show ?thesis using Some x by (simp add: sub.simps(2) scan.simps(2))
    next
      case (Inr new)
      have "sub f s' = (case list_comp (piece_out f) (scan s') of Inl e \<Rightarrow> Inl e | Inr ps \<Rightarrow> Inr (concat ps))"
        using 2(2) [OF Some x [symmetric] Inr] .
      then show ?thesis using Some x Inr by (simp add: sub.simps(2) scan.simps(2) split: sum.splits)
    qed
  qed
qed

lemma scan_Macro_match:
  "Macro m txt \<in> set (scan s) \<Longrightarrow> \<exists>s1 s'. WAPITI_MACRO_PATTERN s1 = Some (m, s') \<and> s1 = txt @ s'"
proof (induction s rule: scan.induct)
  case 1
  then show ?case by simp
next
  case (2 c cs)
  show ?case
  proof (cases "WAPITI_MACRO_PATTERN (c # cs)")
    case None
    then show ?thesis using 2(1) 2(3) by (simp add: scan.simps(2))
  next
    case (Some x)
    obtain m' s' where x: "x = (m', s')" by (cases x)
    show ?thesis
    proof (cases "Macro m txt \<in> set (scan s')")
      case True
      then show ?thesis using 2(2) [OF Some x [symmetric]] by simp
    next
      case False
      then have "m = m'" "txt = take (length (c # cs) - length s') (c # cs)"
        using 2(3) Some x by (auto simp: scan.simps(2))
      then have "WAPITI_MACRO_PATTERN (c # cs) = Some (m, s') \<and> c # cs = txt @ s'"
        using Some x WAPITI_MACRO_PATTERN_take [of "c # cs" m' s'] by simp
      then show ?thesis by blast
    qed
  qed
qed

lemma list_comp_Inl_ex:
  "x \<in> set xs \<Longrightarrow> f x = Inl e \<Longrightarrow> \<exists>e'. list_comp f xs = Inl e'"
  by (induction xs) (auto split: sum.splits)

lemma repl_Some_InlD:
  "repl (Some v) m = Inl e \<Longrightarrow> e = KeyError (column m) \<and> \<not> isdigit (column m) \<and> v (column m) = None"
  by (auto simp: repl_def split: if_splits option.splits)

lemma piece_out_repl_InlD:
  "piece_out (repl (Some v)) p = Inl e \<Longrightarrow>
     \<exists>m txt. p = Macro m txt \<and> e = KeyError (column m) \<and> \<not> isdigit (column m) \<and> v (column m) = None"
  by (cases p) (auto dest: repl_Some_InlD)


text \<open>The text that a match covers: the groups, with white space around offset and column.\<close>

lemma scan_Macro_text:
  assumes "Macro m txt \<in> set (scan s)"
  shows "\<exists>w1 w2 w3 w4. list_all is_space (w1 @ w2 @ w3 @ w4) \<and>
     txt = macro m @ ''['' @ w1 @ offset m @ w2 @ '','' @ w3 @ column m @ w4 @ rest m"
proof -
  obtain s1 s' where s1: "WAPITI_MACRO_PATTERN s1 = Some (m, s')" "s1 = txt @ s'"
    using scan_Macro_match [OF assms] by blast
  obtain sg w1 sign ds w2 w3 col w4 r where
    d: "s1 = CHR ''%'' # sg # CHR ''['' # w1 @ sign @ ds @ w2 @ CHR '','' # w3 @ col @ w4 @ r # s'"
    and w: "list_all is_space w1" "list_all is_space w2" "list_all is_space w3" "list_all is_space w4"
    and m: "m = \<lparr>macro = [CHR ''%'', sg], offset = sign @ ds, column = col, rest = [r]\<rparr>"
    using WAPITI_MACRO_PATTERN_SomeD [OF s1(1)] by blast
  have "txt @ s' = (macro m @ ''['' @ w1 @ offset m @ w2 @ '','' @ w3 @ column m @ w4 @ rest m) @ s'"
    using d s1(2) m by simp
  then have "txt = macro m @ ''['' @ w1 @ offset m @ w2 @ '','' @ w3 @ column m @ w4 @ rest m"
    by (simp only: append_same_eq)
  then show ?thesis using w by (intro exI [of _ w1] exI [of _ w2] exI [of _ w3] exI [of _ w4]) simp
qed

section \<open>Facts about the encoder\<close>

lemma column_pairs_append:
  "column_pairs n (xs @ ys) = column_pairs n xs @ column_pairs (n + length xs) ys"
  by (simp add: column_pairs_def enumerate_append_eq)

lemma fst_column_pairs: "map fst (column_pairs n names) = names"
  by (induction names arbitrary: n) (simp_all add: column_pairs_def)

lemma dict_of_append:
  "dict_of (ps @ qs) k = (case dict_of qs k of None \<Rightarrow> dict_of ps k | Some v \<Rightarrow> Some v)"
  by (simp add: dict_of_def map_add_def split: option.splits)

lemma dict_of_None_iff: "dict_of ps k = None \<longleftrightarrow> k \<notin> set (map fst ps)"
  by (simp add: dict_of_def map_of_eq_None_iff)

lemma dict_of_column_pairs_range:
  assumes "dict_of (column_pairs n names) k = Some i"
  shows "int n \<le> i \<and> i < int n + int (length names)"
proof -
  have "(k, i) \<in> set (rev (column_pairs n names))"
    using assms unfolding dict_of_def by (rule map_of_SomeD)
  then obtain j where "(j, k) \<in> set (enumerate n names)" "i = int j"
    by (auto simp: column_pairs_def)
  then show ?thesis by (auto simp: in_set_enumerate_eq)
qed

lemma dict_of_column_pairs_later:
  assumes "k \<in> set ys"
  shows "\<exists>i. dict_of (column_pairs 0 (xs @ ys)) k = Some i \<and> int (length xs) \<le> i"
proof -
  have "dict_of (column_pairs (length xs) ys) k \<noteq> None"
    using assms by (simp add: dict_of_None_iff fst_column_pairs)
  then obtain i where i: "dict_of (column_pairs (length xs) ys) k = Some i" by auto
  then have "dict_of (column_pairs 0 (xs @ ys)) k = Some i"
    by (simp add: column_pairs_append dict_of_append)
  then show ?thesis using dict_of_column_pairs_range [OF i] by auto
qed

lemma dict_of_column_pairs_distinct:
  assumes "distinct names" "j < length names"
  shows "dict_of (column_pairs n names) (names ! j) = Some (int (n + j))"
proof -
  have d: "distinct (map fst (column_pairs n names))"
    using assms(1) by (simp add: fst_column_pairs)
  have "(n + j, names ! j) \<in> set (enumerate n names)"
    using assms(2) by (simp add: in_set_enumerate_eq)
  then have "(\<lambda>(i, f). (f, int i)) (n + j, names ! j) \<in> set (column_pairs n names)"
    unfolding column_pairs_def set_map by (rule imageI)
  then have "(names ! j, int (n + j)) \<in> set (column_pairs n names)"
    by simp
  then have "(names ! j, int (n + j)) \<in> set (rev (column_pairs n names))" by simp
  moreover have "distinct (map fst (rev (column_pairs n names)))"
    using d by (simp add: rev_map [symmetric])
  ultimately show ?thesis
    unfolding dict_of_def by (rule map_of_is_SomeI [rotated])
qed

lemma enumerates_singleton: "enumerates tuple_of \<Longrightarrow> tuple_of {x} = [x]"
proof -
  assume "enumerates tuple_of"
  then have "set (tuple_of {x}) = {x}" "distinct (tuple_of {x})"
    by (simp_all add: enumerates_def)
  then have "length (tuple_of {x}) = 1" "x \<in> set (tuple_of {x})"
    using distinct_card [of "tuple_of {x}"] by simp_all
  then show ?thesis
    by (cases "tuple_of {x}") auto
qed

lemma enumerates_length: "enumerates tuple_of \<Longrightarrow> finite S \<Longrightarrow> length (tuple_of S) = card S"
  unfolding enumerates_def by (metis distinct_card)


lemma foldl_keys:
  "X \<noteq> [] \<Longrightarrow>
   foldl (\<lambda>keys feature_dicts. (keys \<union> get_combined_keys feature_dicts) - M) K X
     = (K \<union> (\<Union>feature_dicts\<in>set X. get_combined_keys feature_dicts)) - M"
proof (induction X arbitrary: K)
  case Nil
  then show ?case by simp
next
  case (Cons d X)
  show ?case
  proof (cases "X = []")
    case True
    then show ?thesis by simp
  next
    case False
    then show ?thesis using Cons.IH [of "(K \<union> get_combined_keys d) - M"] by auto
  qed
qed

lemma finite_get_combined_keys: "finite (get_combined_keys feature_dicts)"
  by (simp add: get_combined_keys_def)

text \<open>
  Front pinning where it holds: the encoder was never fitted, or the call is given at
  least one sequence.
\<close>

lemma partial_fit_front_pinned:
  assumes "enumerates tuple_of"
    and "distinct (move_to_front self)"
    and "X \<noteq> [] \<or> feature_names self = None"
  shows "\<exists>names v others.
     feature_names (partial_fit tuple_of self X) = Some names \<and>
     vocabulary (partial_fit tuple_of self X) = Some v \<and>
     names = move_to_front self @ others \<and> distinct names \<and>
     set others = ((case feature_names self of None \<Rightarrow> {} | Some old \<Rightarrow> set old) \<union>
                 (\<Union>feature_dicts\<in>set X. get_combined_keys feature_dicts)) - set (move_to_front self) \<and>
     (\<forall>j<length names. v (names ! j) = Some (int j))"
proof -
  define keys0 where "keys0 = (case feature_names self of None \<Rightarrow> {} | Some old \<Rightarrow> set old)"
  define M where "M = set (move_to_front self)"
  define keys where
    "keys = foldl (\<lambda>keys feature_dicts. (keys \<union> get_combined_keys feature_dicts) - M) keys0 X"
  define names where "names = move_to_front self @ tuple_of keys"
  have fin0: "finite keys0"
    by (simp add: keys0_def split: option.splits)
  have keys: "keys = (keys0 \<union> (\<Union>feature_dicts\<in>set X. get_combined_keys feature_dicts)) - M"
  proof (cases "X = []")
    case True
    then have "keys0 = {}" using assms(3) by (simp add: keys0_def)
    then show ?thesis using True by (simp add: keys_def)
  next
    case False
    then show ?thesis unfolding keys_def by (rule foldl_keys)
  qed
  have "finite keys"
    unfolding keys using fin0 finite_get_combined_keys by auto
  then have t: "set (tuple_of keys) = keys" "distinct (tuple_of keys)"
    using assms(1) by (simp_all add: enumerates_def)
  have d: "distinct names"
    using assms(2) t keys by (auto simp: names_def M_def)
  have fn: "feature_names (partial_fit tuple_of self X) = Some names"
    and vo: "vocabulary (partial_fit tuple_of self X) = Some (dict_of (column_pairs 0 names))"
    by (simp_all add: partial_fit_def Let_def names_def keys_def keys0_def M_def)
  have "\<forall>j<length names. dict_of (column_pairs 0 names) (names ! j) = Some (int j)"
    using dict_of_column_pairs_distinct [OF d, of _ 0] by simp
  then show ?thesis
    using fn vo d t(1) keys unfolding names_def keys0_def M_def by blast
qed

section \<open>Facts about rows\<close>

lemma length_join:
  "length (join sep xs) = sum_list (map length xs) + length sep * (length xs - 1)"
  by (induction sep xs rule: join.induct) simp_all

lemma rsplit_from_word:
  "list_all (\<lambda>c. \<not> is_space c) w \<Longrightarrow> rsplit_from cur (w @ s) = rsplit_from (cur @ w) s"
  by (induction w arbitrary: cur) simp_all

lemma rsplit_join:
  assumes "\<forall>x\<in>set xs. x \<noteq> [] \<and> list_all (\<lambda>c. \<not> is_space c) x"
  shows "rsplit (join '' '' xs) = xs"
proof -
  have sp: "is_space CHR '' ''" by (simp add: char_class_defs)
  have "rsplit_from [] (join '' '' xs) = xs"
    using assms
  proof (induction "'' ''" xs rule: join.induct)
    case 1
    then show ?case by simp
  next
    case (2 x)
    then show ?case using rsplit_from_word [of x "[]" "[]"] by simp
  next
    case (3 x y ys)
    have "rsplit_from [] (x @ '' '' @ join '' '' (y # ys)) = rsplit_from x ('' '' @ join '' '' (y # ys))"
      using 3(2) rsplit_from_word [of x "[]"] by simp
    also have "\<dots> = x # rsplit_from [] (join '' '' (y # ys))"
      using 3(2) sp by simp
    finally show ?case using 3 by simp
  qed
  then show ?thesis by (simp add: rsplit_def)
qed

lemma map_of_permuted:
  assumes "distinct (map fst d)" "mset d' = mset d"
  shows "map_of d' = map_of d"
proof -
  have "mset (map fst d') = mset (map fst d)"
    using assms(2) by (metis mset_map)
  then have "distinct (map fst d')"
    using assms(1) by (metis mset_eq_imp_distinct_iff)
  moreover have "set d' = set d"
    using assms(2) by (metis mset_eq_setD)
  ultimately show ?thesis
    using assms(1) by (simp add: map_of_inject_set)
qed

lemma transform_single_fitted:
  "feature_names self = Some names \<Longrightarrow>
   transform_single tostr self feature_dicts =
     Inr (map (\<lambda>dct. join '' '' (map (\<lambda>key. tostr (dict_get dct key)) names)) feature_dicts)"
  by (induction feature_dicts) (simp_all add: transform_single_def)

section \<open>Facts about label extraction\<close>






lemma list_comp_all_Inr:
  "(\<And>x. x \<in> set xs \<Longrightarrow> f x = Inr (g x)) \<Longrightarrow> list_comp f xs = Inr (map g xs)"
  by (induction xs) simp_all



section \<open>Facts about the trainer\<close>

lemma encoder_transform_fitted:
  assumes "feature_names enc = Some names"
  shows "encoder_transform tostr enc X =
     Inr (map (map (\<lambda>dct. join '' '' (map (\<lambda>key. tostr (dict_get dct key)) names))) X)"
  unfolding encoder_transform_def
  by (rule list_comp_all_Inr) (simp add: transform_single_fitted [OF assms])

lemma feature_names_encoder_fit:
  "\<exists>names. feature_names (encoder_fit tuple_of enc X) = Some names"
  by (simp add: encoder_fit_def partial_fit_def Let_def)

lemma zip_take_min:
  "zip xs ys = zip (take (min (length xs) (length ys)) xs) (take (min (length xs) (length ys)) ys)"
  by (induction xs ys rule: list_induct2') simp_all

lemma to_train_sequence_nth:
  "to_train_sequence wapiti_lines tags =
     join ''\<newline>'' (map (\<lambda>i. wapiti_lines ! i @ '' '' @ tags ! i) [0..<min (length wapiti_lines) (length tags)])"
proof -
  have "map (\<lambda>(line, tag). line @ '' '' @ tag) (zip wapiti_lines tags)
      = map (\<lambda>i. wapiti_lines ! i @ '' '' @ tags ! i) [0..<min (length wapiti_lines) (length tags)]"
    by (rule nth_equalityI) simp_all
  then show ?thesis by (simp add: to_train_sequence_def)
qed

lemma files_write_file [simp]: "files (write_file name data w) name = Some (case files w name of None \<Rightarrow> data | Some old \<Rightarrow> old @ data)"
  by (simp add: write_file_def)

lemma foldl_write_files:
  "files w name = Some c \<Longrightarrow>
   files (foldl (\<lambda>w seq. write_file name ''\<newline>\<newline>'' (write_file name (encode_utf8 seq) w)) w seqs) name
     = Some (c @ concat (map (\<lambda>seq. encode_utf8 seq @ ''\<newline>\<newline>'') seqs))"
  by (induction seqs arbitrary: w c) simp_all

lemma trace_write_file [simp]: "trace (write_file name data w) = trace w @ [Wrote name data]"
  by (simp add: write_file_def)

lemma trace_foldl_write_file:
  "\<exists>evs. trace (foldl (\<lambda>w seq. write_file name sep (write_file name (g seq) w)) w0 seqs) = trace w0 @ evs"
proof (induction seqs arbitrary: w0)
  case Nil
  then show ?case by simp
next
  case (Cons a seqs)
  obtain evs where "trace (foldl (\<lambda>w seq. write_file name sep (write_file name (g seq) w))
       (write_file name sep (write_file name (g a) w0)) seqs)
     = trace (write_file name sep (write_file name (g a) w0)) @ evs"
    using Cons by blast
  then have "trace (foldl (\<lambda>w seq. write_file name sep (write_file name (g seq) w)) w0 (a # seqs))
     = trace w0 @ ([Wrote name (g a), Wrote name sep] @ evs)"
    by simp
  then show ?case by blast
qed

lemma files_foldl_write_file:
  "files w0 name \<noteq> None \<Longrightarrow>
   files (foldl (\<lambda>w seq. write_file name sep (write_file name (g seq) w)) w0 seqs) name \<noteq> None"
  by (induction seqs arbitrary: w0) simp_all

lemma create_wapiti_data_file_Some:
  assumes "feature_names (feature_encoder self) = Some names"
  shows "\<exists>w'. create_wapiti_data_file tostr self X (Some y) w =
            (Inr (temp_name (tempdir self) ''wapiti-data-'' ''.txt'' (serial w)), w') \<and>
          files w' (temp_name (tempdir self) ''wapiti-data-'' ''.txt'' (serial w)) \<noteq> None \<and>
          (\<exists>evs. trace w' = trace w @ Created (temp_name (tempdir self) ''wapiti-data-'' ''.txt'' (serial w)) # evs)"
proof -
  let ?name = "temp_name (tempdir self) ''wapiti-data-'' ''.txt'' (serial w)"
  let ?w1 = "snd (create_temp (tempdir self) ''wapiti-data-'' ''.txt'' w)"
  let ?seqs = "map (\<lambda>(lines, tags). to_train_sequence lines tags)
      (zip (map (map (\<lambda>dct. join '' '' (map (\<lambda>key. tostr (dict_get dct key)) names))) X) y)"
  let ?w' = "foldl (\<lambda>w seq. write_file ?name ''\<newline>\<newline>'' (write_file ?name (encode_utf8 seq) w)) ?w1 ?seqs"
  have c: "create_wapiti_data_file tostr self X (Some y) w = (Inr ?name, ?w')"
    using encoder_transform_fitted [OF assms, of tostr X]
    by (simp add: create_wapiti_data_file_def create_temp_def Let_def)
  have w1: "files ?w1 ?name \<noteq> None" "trace ?w1 = trace w @ [Created ?name]"
    by (simp_all add: create_temp_def Let_def)
  have f: "files ?w' ?name \<noteq> None"
    using w1(1) by (rule files_foldl_write_file)
  obtain evs where "trace ?w' = trace ?w1 @ evs"
    using trace_foldl_write_file [of ?name "''\<newline>\<newline>''" encode_utf8 ?w1 ?seqs] by blast
  then have "trace ?w' = trace w @ Created ?name # evs"
    using w1(2) by simp
  then show ?thesis using c f by blast
qed

lemma create_wapiti_data_file_None:
  assumes "feature_names (feature_encoder self) = Some names"
  shows "create_wapiti_data_file tostr self X None w = (Inl TypeError, w)"
  using encoder_transform_fitted [OF assms, of tostr X]
  by (simp add: create_wapiti_data_file_def)

lemma dev_files_None: "dev_files tostr self None y_dev out_dev w = (Inr (None, []), w)"
  by (simp add: dev_files_def)

text \<open>The validation of \<^verbatim>\<open>fit\<close> where it works.\<close>

lemma crf_fit_usage_error:
  assumes "truthy X_dev \<or> truthy y_dev \<or> truthy out_dev" and "X_dev = None \<or> y_dev = None"
  shows "crf_fit tuple_of tostr run_command self X y X_dev y_dev out_dev w = (Inl ValueError, self, w)"
  using assms by (simp add: crf_fit_def)

section \<open>The claims\<close>



text \<open>
  Claim C2. \<^verbatim>\<open>partial_fit\<close> removes the front names from the collected keys only
  inside its loop over the sequences of \<open>X\<close>. Called with an empty \<open>X\<close> on an encoder
  that was fitted before, it starts from the old name list, front names included, and
  removes nothing: with the front names \<open>a\<close>, \<open>b\<close> and the observed name \<open>c\<close> the first
  call gives the names \<open>a\<close>, \<open>b\<close>, \<open>c\<close>, and a second call with an empty \<open>X\<close> gives five
  names, \<open>a\<close> and \<open>b\<close> twice, and a vocabulary in which \<open>a\<close> is not column 0 and \<open>b\<close>
  is not column 1, whatever the order in which the set of keys is listed.
  (Where the encoder was never fitted, or \<open>X\<close> is not empty, the front names are pinned:
  \<open>partial_fit_front_pinned\<close>.)
\<close>

theorem C2_empty_batch_duplicates_front:
  assumes "enumerates tuple_of"
  shows "\<exists>names v.
     feature_names (partial_fit tuple_of (WapitiFeatureEncoder [''a'', ''b''])
        [[[(''a'', PInt 1), (''b'', PInt 2), (''c'', PInt 3)]]]) = Some [''a'', ''b'', ''c''] \<and>
     feature_names (partial_fit tuple_of
        (partial_fit tuple_of (WapitiFeatureEncoder [''a'', ''b''])
           [[[(''a'', PInt 1), (''b'', PInt 2), (''c'', PInt 3)]]]) []) = Some names \<and>
     vocabulary (partial_fit tuple_of
        (partial_fit tuple_of (WapitiFeatureEncoder [''a'', ''b''])
           [[[(''a'', PInt 1), (''b'', PInt 2), (''c'', PInt 3)]]]) []) = Some v \<and>
     length names = 5 \<and> \<not> distinct names \<and> take 2 names = [''a'', ''b''] \<and>
     v ''a'' \<noteq> Some 0 \<and> v ''b'' \<noteq> Some 1"
proof -
  let ?e1 = "partial_fit tuple_of (WapitiFeatureEncoder [''a'', ''b''])
        [[[(''a'', PInt 1), (''b'', PInt 2), (''c'', PInt 3)]]]"
  have k1: "({} \<union> get_combined_keys [[(''a'', PInt 1), (''b'', PInt 2), (''c'', PInt 3)]]) - set [''a'', ''b'']
      = {''c''}"
    by (auto simp: get_combined_keys_def)
  have n1: "feature_names ?e1 = Some [''a'', ''b'', ''c'']"
    using enumerates_singleton [OF assms, of "''c''"] k1
    by (simp add: partial_fit_def WapitiFeatureEncoder_def Let_def)
  have m1: "move_to_front ?e1 = [''a'', ''b'']"
    by (simp add: partial_fit_def WapitiFeatureEncoder_def Let_def)
  define tl3 where "tl3 = tuple_of {''a'', ''b'', ''c''}"
  have s3: "set tl3 = {''a'', ''b'', ''c''}" and d3: "distinct tl3"
    using assms by (simp_all add: enumerates_def tl3_def)
  have l3: "length tl3 = 3"
    using distinct_card [OF d3] s3 by simp
  have n2: "feature_names (partial_fit tuple_of ?e1 []) = Some ([''a'', ''b''] @ tl3)"
    and v2: "vocabulary (partial_fit tuple_of ?e1 []) = Some (dict_of (column_pairs 0 ([''a'', ''b''] @ tl3)))"
    using n1 m1 by (simp_all add: partial_fit_def Let_def tl3_def insert_commute)
  obtain i where i: "dict_of (column_pairs 0 ([''a'', ''b''] @ tl3)) ''a'' = Some i" "int (length [''a'', ''b'']) \<le> i"
    using dict_of_column_pairs_later [of "''a''" tl3 "[''a'', ''b'']"] s3 by auto
  obtain j where j: "dict_of (column_pairs 0 ([''a'', ''b''] @ tl3)) ''b'' = Some j" "int (length [''a'', ''b'']) \<le> j"
    using dict_of_column_pairs_later [of "''b''" tl3 "[''a'', ''b'']"] s3 by auto
  have nd: "\<not> distinct ([''a'', ''b''] @ tl3)"
    using s3 by auto
  show ?thesis
    using n1 n2 v2 i j nd l3 by auto
qed

theorem C2_empty_batch_duplicates_front_witness:
  "\<exists>names v.
     feature_names (partial_fit sorted_list_of_set
        (partial_fit sorted_list_of_set (WapitiFeatureEncoder [''a'', ''b''])
           [[[(''a'', PInt 1), (''b'', PInt 2), (''c'', PInt 3)]]]) []) = Some names \<and>
     vocabulary (partial_fit sorted_list_of_set
        (partial_fit sorted_list_of_set (WapitiFeatureEncoder [''a'', ''b''])
           [[[(''a'', PInt 1), (''b'', PInt 2), (''c'', PInt 3)]]]) []) = Some v \<and>
     length names = 5 \<and> v ''a'' \<noteq> Some 0 \<and> v ''b'' \<noteq> Some 1"
  using C2_empty_batch_duplicates_front [OF enumerates_sorted] by blast

text \<open>
  Claim C3. Let line \<open>i\<close> of the template be white space followed by \<^verbatim>\<open>#\<close>. Then the
  line compiles to itself for every vocabulary (also one that does not know the names
  its macros use, and none at all); when the compilation of the template succeeds, line
  \<open>i\<close> of the output is that line, unchanged; and when the compilation raises, the
  exception was raised by the substitution on another line, which is not a comment.
\<close>

theorem C3_comment_lines_unchanged:
  assumes "i < length (splitlines t)"
    and "splitlines t ! i = ws @ CHR ''#'' # r"
    and "list_all is_space ws"
  shows "compile_line vocab (splitlines t ! i) = Inr (splitlines t ! i) \<and>
    (\<forall>out. prepare_wapiti_template t vocab = Inr out \<longrightarrow>
       (\<exists>ls. out = join ''\<newline>'' ls \<and> length ls = length (splitlines t) \<and> ls ! i = splitlines t ! i)) \<and>
    (\<forall>e. prepare_wapiti_template t vocab = Inl e \<longrightarrow>
       (\<exists>j<length (splitlines t). j \<noteq> i \<and> \<not> wapiti_line_is_comment (splitlines t ! j) \<and>
          sub (repl vocab) (splitlines t ! j) = Inl e))"
proof -
  have c: "wapiti_line_is_comment (splitlines t ! i)"
    using strip_comment [OF assms(3)] assms(2) by simp
  then have 1: "compile_line vocab (splitlines t ! i) = Inr (splitlines t ! i)"
    by (simp add: compile_line_def)
  have 2: "\<exists>ls. out = join ''\<newline>'' ls \<and> length ls = length (splitlines t) \<and> ls ! i = splitlines t ! i"
    if "prepare_wapiti_template t vocab = Inr out" for out
  proof -
    from that obtain ls where ls: "list_comp (compile_line vocab) (splitlines t) = Inr ls"
      and out: "out = join ''\<newline>'' ls"
      by (auto simp: prepare_wapiti_template_def split: sum.splits)
    have "length ls = length (splitlines t)" "compile_line vocab (splitlines t ! i) = Inr (ls ! i)"
      using ls assms(1) by (simp_all add: list_comp_Inr_iff)
    then show ?thesis using out 1 by auto
  qed
  have 3: "\<exists>j<length (splitlines t). j \<noteq> i \<and> \<not> wapiti_line_is_comment (splitlines t ! j) \<and>
          sub (repl vocab) (splitlines t ! j) = Inl e"
    if "prepare_wapiti_template t vocab = Inl e" for e
  proof -
    from that have "list_comp (compile_line vocab) (splitlines t) = Inl e"
      by (auto simp: prepare_wapiti_template_def split: sum.splits)
    then obtain j where j: "j < length (splitlines t)" "compile_line vocab (splitlines t ! j) = Inl e"
      using list_comp_InlD by blast
    have "j \<noteq> i" using j(2) 1 by auto
    moreover have "\<not> wapiti_line_is_comment (splitlines t ! j) \<and> sub (repl vocab) (splitlines t ! j) = Inl e"
      using j(2) by (auto simp: compile_line_def split: if_splits)
    ultimately show ?thesis using j(1) by blast
  qed
  show ?thesis using 1 2 3 by blast
qed

theorem C3_comment_lines_unchanged_witness:
  "compile_line (Some Map.empty) ''  # *:Suf-2 X=%m[ 0,nosuch,\".?.?$\"]'' = Inr ''  # *:Suf-2 X=%m[ 0,nosuch,\".?.?$\"]'' \<and>
   prepare_wapiti_template ''  # *:Suf-2 X=%m[ 0,nosuch,\".?.?$\"]'' (Some Map.empty)
     = Inr ''  # *:Suf-2 X=%m[ 0,nosuch,\".?.?$\"]''"
proof -
  have sl: "splitlines ''  # *:Suf-2 X=%m[ 0,nosuch,\".?.?$\"]'' = [''  # *:Suf-2 X=%m[ 0,nosuch,\".?.?$\"]'']"
    by (simp add: splitlines_def char_class_defs)
  have sp: "list_all is_space ''  ''" by (simp add: char_class_defs)
  have "prepare_wapiti_template ''  # *:Suf-2 X=%m[ 0,nosuch,\".?.?$\"]'' (Some Map.empty)
     = Inr ''  # *:Suf-2 X=%m[ 0,nosuch,\".?.?$\"]''"
    by (simp add: eval_defs)
  then show ?thesis
    using C3_comment_lines_unchanged [of 0 "''  # *:Suf-2 X=%m[ 0,nosuch,\".?.?$\"]''" "''  ''"
      "'' *:Suf-2 X=%m[ 0,nosuch,\".?.?$\"]''" "Some Map.empty"] sl sp
    by simp
qed

text \<open>
  Claim C4. If a line of the template that is not a comment contains a match of the macro
  pattern (as found by the left-to-right scan of \<^verbatim>\<open>sub\<close>) whose column is not a
  number and is not a key of the vocabulary, the compilation of the whole template raises
  \<^verbatim>\<open>KeyError\<close>, for a name that is not a number and not in the vocabulary: no text
  is returned, so no wrong index is substituted and no macro is left unresolved.
\<close>

theorem C4_unknown_feature_raises:
  assumes "line \<in> set (splitlines t)"
    and "\<not> wapiti_line_is_comment line"
    and "Macro m txt \<in> set (scan line)"
    and "\<not> isdigit (column m)"
    and "v (column m) = None"
  shows "\<exists>k. prepare_wapiti_template t (Some v) = Inl (KeyError k) \<and> \<not> isdigit k \<and> v k = None"
proof -
  have "piece_out (repl (Some v)) (Macro m txt) = Inl (KeyError (column m))"
    using assms(4,5) by (simp add: repl_def)
  then obtain e1 where "list_comp (piece_out (repl (Some v))) (scan line) = Inl e1"
    using list_comp_Inl_ex [OF assms(3)] by blast
  then have "compile_line (Some v) line = Inl e1"
    using assms(2) by (simp add: compile_line_def sub_scan)
  then obtain e where e: "list_comp (compile_line (Some v)) (splitlines t) = Inl e"
    using list_comp_Inl_ex [OF assms(1)] by blast
  then obtain j where j: "compile_line (Some v) (splitlines t ! j) = Inl e"
    using list_comp_InlD by blast
  then have "list_comp (piece_out (repl (Some v))) (scan (splitlines t ! j)) = Inl e"
    by (auto simp: compile_line_def sub_scan split: if_splits sum.splits)
  then obtain p where p: "piece_out (repl (Some v)) p = Inl e"
    using list_comp_InlD by blast
  obtain m' :: groups where "e = KeyError (column m')" "\<not> isdigit (column m')" "v (column m') = None"
    using piece_out_repl_InlD [OF p] by blast
  then show ?thesis
    using e by (simp add: prepare_wapiti_template_def)
qed

theorem C4_unknown_feature_raises_witness:
  "\<exists>k. prepare_wapiti_template ''*:Pos-1 L=%x[-1, nosuch]'' (Some [''token'' \<mapsto> 0]) = Inl (KeyError k) \<and>
     \<not> isdigit k \<and> [''token'' \<mapsto> (0::int)] k = None"
proof -
  have 1: "''*:Pos-1 L=%x[-1, nosuch]'' \<in> set (splitlines ''*:Pos-1 L=%x[-1, nosuch]'')"
    by (simp add: splitlines_def char_class_defs)
  have 2: "\<not> wapiti_line_is_comment ''*:Pos-1 L=%x[-1, nosuch]''"
    by (simp add: eval_defs)
  have 3: "Macro \<lparr>macro = ''%x'', offset = ''-1'', column = ''nosuch'', rest = '']''\<rparr> ''%x[-1, nosuch]''
      \<in> set (scan ''*:Pos-1 L=%x[-1, nosuch]'')"
    by (simp add: scan.simps re_defs char_class_defs)
  have 4: "\<not> isdigit (column \<lparr>macro = ''%x'', offset = ''-1'', column = ''nosuch'', rest = '']''\<rparr>)"
    by (simp add: isdigit_def char_class_defs)
  have 5: "[''token'' \<mapsto> (0::int)] (column \<lparr>macro = ''%x'', offset = ''-1'', column = ''nosuch'', rest = '']''\<rparr>) = None"
    by simp
  show ?thesis
    by (rule C4_unknown_feature_raises
        [of "''*:Pos-1 L=%x[-1, nosuch]''" "''*:Pos-1 L=%x[-1, nosuch]''"
          "\<lparr>macro = ''%x'', offset = ''-1'', column = ''nosuch'', rest = '']''\<rparr>"
          "''%x[-1, nosuch]''" "[''token'' \<mapsto> 0]", OF 1 2 3 4 5])
qed

text \<open>
  Claim C5. On a fitted encoder \<^verbatim>\<open>transform_single\<close> returns one row for each
  observation. Row \<open>i\<close> is the columns of observation \<open>i\<close>, one for each vocabulary name
  in vocabulary order, joined by single spaces: its length is the sum of the column
  lengths plus one separator between neighbours (none at the end), and where no column
  is empty or contains white space, splitting the row at white space gives back exactly
  the columns. A key that the observation lacks is rendered as the fixed string that
  \<^verbatim>\<open>tostr\<close> gives for \<^verbatim>\<open>None\<close>. The row of an observation does not change when
  the entries of its dictionary are listed in another order.
\<close>

theorem C5_one_row_per_observation:
  assumes "feature_names self = Some names"
  shows "\<exists>rows. transform_single tostr self feature_dicts = Inr rows \<and>
    length rows = length feature_dicts \<and>
    (\<forall>i<length feature_dicts.
       rows ! i = join '' '' (map (\<lambda>key. tostr (dict_get (feature_dicts ! i) key)) names) \<and>
       length (rows ! i) =
         sum_list (map (\<lambda>key. length (tostr (dict_get (feature_dicts ! i) key))) names) + (length names - 1) \<and>
       ((\<forall>key\<in>set names. tostr (dict_get (feature_dicts ! i) key) \<noteq> [] \<and>
            list_all (\<lambda>c. \<not> is_space c) (tostr (dict_get (feature_dicts ! i) key))) \<longrightarrow>
          rsplit (rows ! i) = map (\<lambda>key. tostr (dict_get (feature_dicts ! i) key)) names) \<and>
       (\<forall>key. key \<notin> fst ` set (feature_dicts ! i) \<longrightarrow>
          tostr (dict_get (feature_dicts ! i) key) = tostr PNone) \<and>
       (\<forall>dct'. distinct (map fst (feature_dicts ! i)) \<and> mset dct' = mset (feature_dicts ! i) \<longrightarrow>
          transform_single tostr self [dct'] = Inr [rows ! i]))"
proof -
  let ?row = "\<lambda>dct. join '' '' (map (\<lambda>key. tostr (dict_get dct key)) names)"
  have r: "transform_single tostr self feature_dicts = Inr (map ?row feature_dicts)"
    using assms by (rule transform_single_fitted)
  have "length (?row dct) = sum_list (map (\<lambda>key. length (tostr (dict_get dct key))) names) + (length names - 1)"
    for dct
    by (simp add: length_join comp_def)
  moreover have "rsplit (?row dct) = map (\<lambda>key. tostr (dict_get dct key)) names"
    if "\<forall>key\<in>set names. tostr (dict_get dct key) \<noteq> [] \<and> list_all (\<lambda>c. \<not> is_space c) (tostr (dict_get dct key))"
    for dct
    using that by (intro rsplit_join) auto
  moreover have "tostr (dict_get dct key) = tostr PNone" if "key \<notin> fst ` set dct" for dct key
    using that by (simp add: dict_get_def map_of_eq_None_iff [THEN iffD2])
  moreover have "transform_single tostr self [dct'] = Inr [?row dct]"
    if "distinct (map fst dct)" "mset dct' = mset dct" for dct dct'
    using transform_single_fitted [OF assms, of tostr "[dct']"] map_of_permuted [OF that]
    by (simp add: dict_get_def)
  ultimately show ?thesis
    using r by (intro exI [of _ "map ?row feature_dicts"]) simp
qed

theorem C5_one_row_per_observation_witness:
  "\<exists>rows. transform_single (\<lambda>v. case v of PStr s \<Rightarrow> s | _ \<Rightarrow> ''None'')
       \<lparr>move_to_front = [''token''], feature_names = Some [''token'', ''tag'', ''shape''], vocabulary = None\<rparr>
       [[(''tag'', PStr ''DT''), (''token'', PStr ''the'')]] = Inr rows \<and>
     rows ! 0 = ''the DT None'' \<and> rsplit (rows ! 0) = [''the'', ''DT'', ''None''] \<and>
     transform_single (\<lambda>v. case v of PStr s \<Rightarrow> s | _ \<Rightarrow> ''None'')
       \<lparr>move_to_front = [''token''], feature_names = Some [''token'', ''tag'', ''shape''], vocabulary = None\<rparr>
       [[(''token'', PStr ''the''), (''tag'', PStr ''DT'')]] = Inr [rows ! 0]"
proof -
  let ?enc = "\<lparr>move_to_front = [''token''], feature_names = Some [''token'', ''tag'', ''shape''], vocabulary = None\<rparr>"
  let ?tostr = "\<lambda>v. case v of PStr s \<Rightarrow> s | _ \<Rightarrow> ''None''"
  let ?d = "[(''tag'', PStr ''DT''), (''token'', PStr ''the'')]"
  have fn: "feature_names ?enc = Some [''token'', ''tag'', ''shape'']" by simp
  obtain rows where rows: "transform_single ?tostr ?enc [?d] = Inr rows"
    and each: "\<forall>i<length [?d].
       rows ! i = join '' '' (map (\<lambda>key. ?tostr (dict_get ([?d] ! i) key)) [''token'', ''tag'', ''shape'']) \<and>
       length (rows ! i) =
         sum_list (map (\<lambda>key. length (?tostr (dict_get ([?d] ! i) key))) [''token'', ''tag'', ''shape'']) + (length [''token'', ''tag'', ''shape''] - 1) \<and>
       ((\<forall>key\<in>set [''token'', ''tag'', ''shape'']. ?tostr (dict_get ([?d] ! i) key) \<noteq> [] \<and>
            list_all (\<lambda>c. \<not> is_space c) (?tostr (dict_get ([?d] ! i) key))) \<longrightarrow>
          rsplit (rows ! i) = map (\<lambda>key. ?tostr (dict_get ([?d] ! i) key)) [''token'', ''tag'', ''shape'']) \<and>
       (\<forall>key. key \<notin> fst ` set ([?d] ! i) \<longrightarrow>
          ?tostr (dict_get ([?d] ! i) key) = ?tostr PNone) \<and>
       (\<forall>dct'. distinct (map fst ([?d] ! i)) \<and> mset dct' = mset ([?d] ! i) \<longrightarrow>
          transform_single ?tostr ?enc [dct'] = Inr [rows ! i])"
    using C5_one_row_per_observation [OF fn, of ?tostr "[?d]"] by blast
  note e0 = each [rule_format, of 0, simplified]
  have 1: "rows ! 0 = ''the DT None''"
    using e0 by (simp add: dict_get_def)
  have 2: "rsplit (rows ! 0) = [''the'', ''DT'', ''None'']"
    using e0 by (simp add: dict_get_def rsplit_def char_class_defs)
  have 3: "transform_single ?tostr ?enc [[(''token'', PStr ''the''), (''tag'', PStr ''DT'')]] = Inr [rows ! 0]"
    using e0 by (simp add: dict_get_def)
  show ?thesis using rows 1 2 3 by blast
qed

text \<open>
  Claim C6, amended. When the compilation succeeds, the output is the compiled lines
  joined by single line feeds, one compiled line for each line that \<^verbatim>\<open>splitlines\<close>
  finds in the template, in order, each compiled on its own. A comment line is copied
  whole. Any other line is the concatenation of the pieces of its scan, and its compiled
  line is the concatenation of what the pieces give: a character outside a match gives
  itself, a match gives its replacement. Line terminators are not kept as they are.
\<close>

theorem C6_lines_compiled_independently:
  assumes "prepare_wapiti_template t vocab = Inr out"
  shows "\<exists>ls. out = join ''\<newline>'' ls \<and> length ls = length (splitlines t) \<and>
    (\<forall>i<length ls.
       compile_line vocab (splitlines t ! i) = Inr (ls ! i) \<and>
       (wapiti_line_is_comment (splitlines t ! i) \<longrightarrow> ls ! i = splitlines t ! i) \<and>
       (\<not> wapiti_line_is_comment (splitlines t ! i) \<longrightarrow>
          (\<exists>ps. length ps = length (scan (splitlines t ! i)) \<and>
                splitlines t ! i = concat (map piece_source (scan (splitlines t ! i))) \<and>
                ls ! i = concat ps \<and>
                (\<forall>j<length ps. piece_out (repl vocab) (scan (splitlines t ! i) ! j) = Inr (ps ! j)))))"
proof -
  from assms obtain ls where ls: "list_comp (compile_line vocab) (splitlines t) = Inr ls"
    and out: "out = join ''\<newline>'' ls"
    by (auto simp: prepare_wapiti_template_def split: sum.splits)
  have len: "length ls = length (splitlines t)"
    and each: "\<And>i. i < length (splitlines t) \<Longrightarrow> compile_line vocab (splitlines t ! i) = Inr (ls ! i)"
    using ls by (simp_all add: list_comp_Inr_iff)
  have "compile_line vocab (splitlines t ! i) = Inr (ls ! i) \<and>
       (wapiti_line_is_comment (splitlines t ! i) \<longrightarrow> ls ! i = splitlines t ! i) \<and>
       (\<not> wapiti_line_is_comment (splitlines t ! i) \<longrightarrow>
          (\<exists>ps. length ps = length (scan (splitlines t ! i)) \<and>
                splitlines t ! i = concat (map piece_source (scan (splitlines t ! i))) \<and>
                ls ! i = concat ps \<and>
                (\<forall>j<length ps. piece_out (repl vocab) (scan (splitlines t ! i) ! j) = Inr (ps ! j))))"
    if i: "i < length ls" for i
  proof -
    let ?line = "splitlines t ! i"
    have c: "compile_line vocab ?line = Inr (ls ! i)"
      using each i len by simp
    have a: "ls ! i = ?line" if "wapiti_line_is_comment ?line"
      using c that by (simp add: compile_line_def)
    have b: "\<exists>ps. length ps = length (scan ?line) \<and> ?line = concat (map piece_source (scan ?line)) \<and>
        ls ! i = concat ps \<and> (\<forall>j<length ps. piece_out (repl vocab) (scan ?line ! j) = Inr (ps ! j))"
      if "\<not> wapiti_line_is_comment ?line"
    proof -
      from c that obtain ps where ps: "list_comp (piece_out (repl vocab)) (scan ?line) = Inr ps"
        and o: "ls ! i = concat ps"
        by (auto simp: compile_line_def sub_scan split: sum.splits)
      have "length ps = length (scan ?line)"
        "\<forall>j<length ps. piece_out (repl vocab) (scan ?line ! j) = Inr (ps ! j)"
        using ps by (simp_all add: list_comp_Inr_iff)
      then show ?thesis using o scan_source [of ?line] by auto
    qed
    show ?thesis using a b c by blast
  qed
  then show ?thesis using out len by blast
qed

theorem C6_lines_compiled_independently_witness:
  "\<exists>ls. ''*:Pos-1 L=%x[-1,1]\<newline>foo'' = join ''\<newline>'' ls \<and> length ls = 2 \<and>
     compile_line (Some [''tag'' \<mapsto> 1]) ''*:Pos-1 L=%x[-1, tag]'' = Inr (ls ! 0) \<and>
     compile_line (Some [''tag'' \<mapsto> 1]) ''foo'' = Inr (ls ! 1)"
proof -
  have ev: "prepare_wapiti_template ''*:Pos-1 L=%x[-1, tag]\<newline>foo\<newline>'' (Some [''tag'' \<mapsto> 1])
      = Inr ''*:Pos-1 L=%x[-1,1]\<newline>foo''"
    by (simp add: eval_defs)
  have sl: "splitlines ''*:Pos-1 L=%x[-1, tag]\<newline>foo\<newline>'' = [''*:Pos-1 L=%x[-1, tag]'', ''foo'']"
    by (simp add: splitlines_def char_class_defs)
  obtain ls where ls: "''*:Pos-1 L=%x[-1,1]\<newline>foo'' = join ''\<newline>'' ls" "length ls = 2"
    "\<forall>i<length ls. compile_line (Some [''tag'' \<mapsto> 1]) ([''*:Pos-1 L=%x[-1, tag]'', ''foo''] ! i) = Inr (ls ! i)"
    using C6_lines_compiled_independently [OF ev] unfolding sl by auto
  have "compile_line (Some [''tag'' \<mapsto> 1]) ''*:Pos-1 L=%x[-1, tag]'' = Inr (ls ! 0)"
    "compile_line (Some [''tag'' \<mapsto> 1]) ''foo'' = Inr (ls ! 1)"
    using ls(3) [rule_format, of 0] ls(3) [rule_format, of 1] ls(2) by simp_all
  then show ?thesis using ls(1,2) by blast
qed

text \<open>
  Claim C6 as stated fails: a line break at the end of the template is dropped, and a
  carriage return with line feed becomes a single line feed, in templates without any macro.
\<close>

theorem C6_trailing_newline_counterexample:
  "prepare_wapiti_template ''a\<newline>'' None = Inr ''a'' \<and>
   prepare_wapiti_template [CHR ''a'', CHR 0x0D, CHR 0x0A, CHR ''b''] None = Inr ''a\<newline>b''"
  by (simp add: eval_defs)

text \<open>
  Claim C7. \<^verbatim>\<open>reset()\<close> sets only \<^verbatim>\<open>feature_names_\<close> to \<^verbatim>\<open>None\<close>. The
  name-to-index mapping \<^verbatim>\<open>vocabulary_\<close> of a fitted encoder is still there after
  \<^verbatim>\<open>reset()\<close>, whereas \<^verbatim>\<open>__init__\<close> sets both attributes to \<^verbatim>\<open>None\<close>: a
  template that names the feature \<open>tag\<close> raises \<^verbatim>\<open>TypeError\<close> on a new encoder and
  compiles with the old index on an encoder that was fitted and then reset.
\<close>

theorem C7_reset_keeps_vocabulary:
  "feature_names (reset (partial_fit tuple_of self X)) = None \<and>
   vocabulary (reset (partial_fit tuple_of self X)) = vocabulary (partial_fit tuple_of self X) \<and>
   vocabulary (reset (partial_fit tuple_of self X)) \<noteq> None \<and>
   vocabulary (WapitiFeatureEncoder mtf) = None \<and>
   prepare_template (WapitiFeatureEncoder [''token'', ''tag'']) ''%x[0,tag]'' = Inl TypeError \<and>
   prepare_template (reset (encoder_fit sorted_list_of_set (WapitiFeatureEncoder [''token'', ''tag''])
        [[[(''token'', PStr ''the''), (''tag'', PStr ''DT'')]]])) ''%x[0,tag]'' = Inr ''%x[0,1]''"
proof -
  have "prepare_template (WapitiFeatureEncoder [''token'', ''tag'']) ''%x[0,tag]'' = Inl TypeError"
    by (simp add: prepare_template_def WapitiFeatureEncoder_def eval_defs)
  moreover have "prepare_template (reset (encoder_fit sorted_list_of_set (WapitiFeatureEncoder [''token'', ''tag''])
        [[[(''token'', PStr ''the''), (''tag'', PStr ''DT'')]]])) ''%x[0,tag]'' = Inr ''%x[0,1]''"
    by (simp add: prepare_template_def WapitiFeatureEncoder_def reset_def encoder_fit_def partial_fit_def
        get_combined_keys_def dict_of_def column_pairs_def Let_def eval_defs)
  ultimately show ?thesis
    by (simp add: reset_def partial_fit_def WapitiFeatureEncoder_def Let_def)
qed



text \<open>
  Claim C9. The guard of \<^verbatim>\<open>fit\<close> tests the truth values of its optional arguments
  (\<^verbatim>\<open>any([X_dev, y_dev, out_dev])\<close>), and an empty list is false. So with an empty list
  of development observations and no development labels \<^verbatim>\<open>ValueError\<close> is not raised:
  the training data file is created and written, and then the call ends with the
  \<^verbatim>\<open>TypeError\<close> of \<^verbatim>\<open>zip(X, None)\<close>. With an empty list of development labels and
  no development observations nothing is raised by the guard either: the call does what
  it does without development data. (With a non-empty argument the guard works:
  \<open>crf_fit_usage_error\<close>.)
\<close>

theorem C9_empty_dev_observations_not_rejected:
  "(\<exists>self' w' evs.
      crf_fit tuple_of tostr run_command self X y (Some []) None None w = (Inl TypeError, self', w') \<and>
      trace w' = trace w @ Created (temp_name (tempdir self) ''wapiti-data-'' ''.txt'' (serial w)) # evs) \<and>
   crf_fit tuple_of tostr run_command self X y None (Some []) None w =
     crf_fit tuple_of tostr run_command self X y None None None w"
proof -
  let ?self1 = "self\<lparr>feature_encoder := encoder_fit tuple_of (reset (feature_encoder self)) X\<rparr>"
  let ?name = "temp_name (tempdir self) ''wapiti-data-'' ''.txt'' (serial w)"
  obtain names where fn: "feature_names (feature_encoder ?self1) = Some names"
    using feature_names_encoder_fit [of tuple_of "reset (feature_encoder self)" X] by auto
  obtain w1 evs where c: "create_wapiti_data_file tostr ?self1 X (Some y) w = (Inr ?name, w1)"
    and f: "files w1 ?name \<noteq> None" and t: "trace w1 = trace w @ Created ?name # evs"
    using create_wapiti_data_file_Some [OF fn, of tostr X y w] by auto
  have d: "create_wapiti_data_file tostr ?self1 [] None w1 = (Inl TypeError, w1)"
    using fn by (rule create_wapiti_data_file_None)
  have ft: "fit_try tostr run_command ?self1 X y (Some []) None None w = (Inl TypeError, [?name], w1)"
    using c d by (simp add: fit_try_def dev_files_def)
  have "\<exists>w'. crf_fit tuple_of tostr run_command self X y (Some []) None None w = (Inl TypeError, ?self1, w') \<and>
      (\<exists>evs. trace w' = trace w @ Created ?name # evs)"
  proof (cases "unlink_temp self")
    case True
    then show ?thesis
      using ft f t by (auto simp: crf_fit_def truthy_def Let_def unlink_def)
  next
    case False
    then show ?thesis
      using ft t by (auto simp: crf_fit_def truthy_def Let_def)
  qed
  moreover have "crf_fit tuple_of tostr run_command self X y None (Some []) None w =
     crf_fit tuple_of tostr run_command self X y None None None w"
    unfolding crf_fit_def fit_try_def dev_files_None by (simp add: truthy_def)
  ultimately show ?thesis by blast
qed

text \<open>
  Claim C10. \<^verbatim>\<open>_to_train_sequence\<close> pairs rows and labels by position up to the
  shorter of the two lists: its result is the same as for the two lists cut to that
  length. On a fitted encoder \<^verbatim>\<open>_create_wapiti_data_file\<close> raises nothing, whatever
  the lengths are: it returns the name of the file it created, and the file holds, for
  every sequence that has both rows and labels, the sequence paired in this way, each
  followed by an empty line.
\<close>

theorem C10_zip_drops_surplus:
  assumes "feature_names (feature_encoder self) = Some names"
  shows "to_train_sequence wapiti_lines tags =
       join ''\<newline>'' (map (\<lambda>i. wapiti_lines ! i @ '' '' @ tags ! i)
                     [0..<min (length wapiti_lines) (length tags)]) \<and>
     to_train_sequence wapiti_lines tags =
       to_train_sequence (take (min (length wapiti_lines) (length tags)) wapiti_lines)
                         (take (min (length wapiti_lines) (length tags)) tags) \<and>
     (\<exists>rows name w'.
        encoder_transform tostr (feature_encoder self) X = Inr rows \<and>
        length rows = length X \<and> (\<forall>i<length X. length (rows ! i) = length (X ! i)) \<and>
        create_wapiti_data_file tostr self X (Some y) w = (Inr name, w') \<and>
        files w' name =
          Some (concat (map (\<lambda>i. encode_utf8 (to_train_sequence (rows ! i) (y ! i)) @ ''\<newline>\<newline>'')
                          [0..<min (length X) (length y)])))"
proof -
  let ?row = "\<lambda>dct. join '' '' (map (\<lambda>key. tostr (dict_get dct key)) names)"
  let ?rows = "map (map ?row) X"
  have 1: "to_train_sequence wapiti_lines tags =
       join ''\<newline>'' (map (\<lambda>i. wapiti_lines ! i @ '' '' @ tags ! i)
                     [0..<min (length wapiti_lines) (length tags)])"
    by (rule to_train_sequence_nth)
  have 2: "to_train_sequence wapiti_lines tags =
       to_train_sequence (take (min (length wapiti_lines) (length tags)) wapiti_lines)
                         (take (min (length wapiti_lines) (length tags)) tags)"
    unfolding to_train_sequence_def using zip_take_min [of wapiti_lines tags] by simp
  have t: "encoder_transform tostr (feature_encoder self) X = Inr ?rows"
    using assms by (rule encoder_transform_fitted)
  let ?name = "temp_name (tempdir self) ''wapiti-data-'' ''.txt'' (serial w)"
  let ?seqs = "map (\<lambda>(lines, tags). to_train_sequence lines tags) (zip ?rows y)"
  let ?w1 = "snd (create_temp (tempdir self) ''wapiti-data-'' ''.txt'' w)"
  let ?w' = "foldl (\<lambda>w seq. write_file ?name ''\<newline>\<newline>'' (write_file ?name (encode_utf8 seq) w)) ?w1 ?seqs"
  have c: "create_wapiti_data_file tostr self X (Some y) w = (Inr ?name, ?w')"
    using t by (simp add: create_wapiti_data_file_def create_temp_def Let_def)
  have "files ?w1 ?name = Some []"
    by (simp add: create_temp_def Let_def)
  then have f: "files ?w' ?name = Some ([] @ concat (map (\<lambda>seq. encode_utf8 seq @ ''\<newline>\<newline>'') ?seqs))"
    by (rule foldl_write_files)
  have s: "?seqs = map (\<lambda>i. to_train_sequence (?rows ! i) (y ! i)) [0..<min (length X) (length y)]"
    by (rule nth_equalityI) simp_all
  have "files ?w' ?name =
          Some (concat (map (\<lambda>i. encode_utf8 (to_train_sequence (?rows ! i) (y ! i)) @ ''\<newline>\<newline>'')
                          [0..<min (length X) (length y)]))"
    using f unfolding s by (simp add: comp_def)
  then have 3: "\<exists>rows name w'.
        encoder_transform tostr (feature_encoder self) X = Inr rows \<and>
        length rows = length X \<and> (\<forall>i<length X. length (rows ! i) = length (X ! i)) \<and>
        create_wapiti_data_file tostr self X (Some y) w = (Inr name, w') \<and>
        files w' name =
          Some (concat (map (\<lambda>i. encode_utf8 (to_train_sequence (rows ! i) (y ! i)) @ ''\<newline>\<newline>'')
                          [0..<min (length X) (length y)]))"
    using t c by (intro exI [of _ ?rows] exI [of _ ?name] exI [of _ ?w']) simp
  show ?thesis using 1 2 3 by blast
qed


theorem C10_zip_drops_surplus_witness:
  "\<exists>name w'.
     create_wapiti_data_file (\<lambda>v. case v of PStr s \<Rightarrow> s | _ \<Rightarrow> ''None'')
       \<lparr>model_filname = ''m'', wapiti_args = [], feature_template = [], unigrams_scope = None,
        tempdir = None, unlink_temp = True, verbose = False,
        feature_encoder = \<lparr>move_to_front = [''token''], feature_names = Some [''token''],
                            vocabulary = Some [''token'' \<mapsto> 0]\<rparr>\<rparr>
       [[[(''token'', PStr ''the'')], [(''token'', PStr ''dog'')]]] (Some [[''O'']])
       \<lparr>files = Map.empty, trace = [], serial = 0\<rparr> = (Inr name, w') \<and>
     files w' name = Some ''the O\<newline>\<newline>''"
proof -
  let ?tostr = "\<lambda>v. case v of PStr s \<Rightarrow> s | _ \<Rightarrow> ''None''"
  let ?enc = "\<lparr>move_to_front = [''token''], feature_names = Some [''token''],
                vocabulary = Some [''token'' \<mapsto> (0::int)]\<rparr>"
  let ?self = "\<lparr>model_filname = ''m'', wapiti_args = [], feature_template = [], unigrams_scope = None,
        tempdir = None, unlink_temp = True, verbose = False, feature_encoder = ?enc\<rparr>"
  let ?X = "[[[(''token'', PStr ''the'')], [(''token'', PStr ''dog'')]]]"
  let ?w = "\<lparr>files = Map.empty, trace = [], serial = 0\<rparr>"
  have fn: "feature_names (feature_encoder ?self) = Some [''token'']" by simp
  obtain rows name w' where
    r: "encoder_transform ?tostr (feature_encoder ?self) ?X = Inr rows"
    and c: "create_wapiti_data_file ?tostr ?self ?X (Some [[''O'']]) ?w = (Inr name, w')"
    and f: "files w' name =
          Some (concat (map (\<lambda>i. encode_utf8 (to_train_sequence (rows ! i) ([[''O'']] ! i)) @ ''\<newline>\<newline>'')
                          [0..<min (length ?X) (length [[''O'']])]))"
    using C10_zip_drops_surplus [OF fn, of "[]" "[]" ?tostr ?X "[[''O'']]" ?w] by blast
  have "rows = [[''the'', ''dog'']]"
    using r by (simp add: encoder_transform_def transform_single_def dict_get_def)
  then have "files w' name = Some ''the O\<newline>\<newline>''"
    using f by (simp add: to_train_sequence_def encode_utf8_def utf8_char_def)
  then show ?thesis using c by blast
qed

end
